theory Spec2Isabelle
  imports Main "HOL-Library.Sublist"
begin

text \<open>
  A model of \<open>dist/index.js\<close> of prepare-for-web, the compiled program: the path
  rewriter, the favicon orchestrator with its timer and its retry, the manifest merger,
  the document assembler and \<open>generateApp\<close> with its staleness gate and its cache
  commit. The file system, the clock and the output are a record that the functions pass
  along; what throws returns the error. The favicon capability, \<open>JSON\<close> and Handlebars
  are outside the program: the first is a sequence of events, the others are parameters.
\<close>

section \<open>Strings and paths\<close>

text \<open>
  JavaScript strings are modelled as HOL strings. \<open>startsWith\<close> and \<open>endsWith\<close> are the
  methods of \<open>String.prototype\<close>; a value that may be \<open>undefined\<close> is an option, and
  \<open>truthy\<close> is JavaScript's truthiness of such a value (the empty string is falsy).
\<close>

type_synonym path = string

definition startsWith :: "string \<Rightarrow> string \<Rightarrow> bool" where
  "startsWith s p = prefix p s"

definition endsWith :: "string \<Rightarrow> string \<Rightarrow> bool" where
  "endsWith s p = suffix p s"

definition truthy :: "string option \<Rightarrow> bool" where
  "truthy v = (case v of None \<Rightarrow> False | Some s \<Rightarrow> s \<noteq> [])"

definition js_str :: "string option \<Rightarrow> string" where
  \<comment> \<open>string concatenation and template literals print \<open>undefined\<close> by its name\<close>
  "js_str v = (case v of None \<Rightarrow> ''undefined'' | Some s \<Rightarrow> s)"

text \<open>
  \<open>content.replace(re, rep)\<close> with a global regular expression made from a literal
  pattern: the text is scanned from the left, each match is replaced and the scan goes on
  after the match. The replacement strings of this program hold no \<open>$\<close> pattern.
\<close>

function replace_all :: "string \<Rightarrow> string \<Rightarrow> string \<Rightarrow> string" where
  "replace_all pat rep [] = []"
| "replace_all pat rep (c # cs) =
     (if pat \<noteq> [] \<and> prefix pat (c # cs)
      then rep @ replace_all pat rep (drop (length pat) (c # cs))
      else c # replace_all pat rep cs)"
  by pat_completeness auto
termination
  by (relation "measure (\<lambda>(pat, rep, s). length s)") (auto simp: neq_Nil_conv)

fun join_lines :: "string list \<Rightarrow> string" where
  \<comment> \<open>\<open>Array.prototype.join\<close> with a newline\<close>
  "join_lines [] = []"
| "join_lines [s] = s"
| "join_lines (s # t # ss) = s @ ''\<newline>'' @ join_lines (t # ss)"

text \<open>
  \<open>path.join\<close> of Node (POSIX): the non-empty arguments are joined by a slash and the
  result is normalised: empty and \<open>.\<close> segments go, a \<open>..\<close> segment removes the segment
  before it, a trailing slash stays.
\<close>

fun split_sep :: "string \<Rightarrow> string list" where
  "split_sep [] = [[]]"
| "split_sep (c # cs) =
     (if c = CHR ''/'' then [] # split_sep cs
      else (case split_sep cs of [] \<Rightarrow> [[c]] | s # ss \<Rightarrow> (c # s) # ss))"

fun join_sep :: "string list \<Rightarrow> string" where
  "join_sep [] = []"
| "join_sep [s] = s"
| "join_sep (s # t # ss) = s @ ''/'' @ join_sep (t # ss)"

fun normalizeString :: "bool \<Rightarrow> string list \<Rightarrow> string list \<Rightarrow> string list" where
  "normalizeString allowAboveRoot res [] = res"
| "normalizeString allowAboveRoot res (s # ss) =
     (if s = [] \<or> s = ''.'' then normalizeString allowAboveRoot res ss
      else if s = ''..'' then
        (if res \<noteq> [] \<and> last res \<noteq> ''..'' then normalizeString allowAboveRoot (butlast res) ss
         else if allowAboveRoot then normalizeString allowAboveRoot (res @ [''..'']) ss
         else normalizeString allowAboveRoot res ss)
      else normalizeString allowAboveRoot (res @ [s]) ss)"

definition normalize :: "path \<Rightarrow> path" where
  "normalize p =
     (if p = [] then ''.''
      else
        (let isAbsolute = (hd p = CHR ''/'');
             trailingSeparator = (last p = CHR ''/'');
             q = join_sep (normalizeString (\<not> isAbsolute) [] (split_sep p))
         in if q = [] then (if isAbsolute then ''/'' else if trailingSeparator then ''./'' else ''.'')
            else (if isAbsolute then ''/'' else []) @ q @ (if trailingSeparator then ''/'' else [])))"

definition path_join :: "path \<Rightarrow> path \<Rightarrow> path" where
  "path_join a b =
     (let parts = filter (\<lambda>s. s \<noteq> []) [a, b]
      in if parts = [] then ''.'' else normalize (join_sep parts))"

section \<open>The world: file system, clock, output\<close>

text \<open>
  A path names a file (its text and its modification time in milliseconds) or a
  directory. The clock is what \<open>Date.now()\<close> reads. The log holds what the program
  prints, by stream. \<open>fav_calls\<close> counts the invocations of the external favicon
  capability. Paths are taken as they are written. A write replaces a file, or makes
  one where there is none and the parent directory stands (the working directory and
  the root always stand); it throws on a directory, and where the parent directory is
  missing or is a file. \<open>ensureDirSync\<close> makes a directory where there is none and
  throws on a file; the directory above the one it makes is taken to stand.
\<close>

datatype node = File string int | Dir int

fun mtime :: "node \<Rightarrow> int" where
  "mtime (File c t) = t"
| "mtime (Dir t) = t"

fun set_mtime :: "int \<Rightarrow> node \<Rightarrow> node" where
  "set_mtime t (File c u) = File c t"
| "set_mtime t (Dir u) = Dir t"

datatype stream = Stdout | Stderr

datatype error =
    ENOENT path
  | EISDIR path
  | EEXIST path
  | ENOTDIR path
  | SyntaxError
  | TypeError
  | TemplateError
  | FaviconError string

record world =
  nodes :: "path \<rightharpoonup> node"
  clock :: int
  log :: "(stream \<times> string) list"
  fav_calls :: nat

definition emit :: "stream \<Rightarrow> string \<Rightarrow> world \<Rightarrow> world" where
  "emit s msg w = w\<lparr>log := log w @ [(s, msg)]\<rparr>"

definition existsSync :: "world \<Rightarrow> path \<Rightarrow> bool" where
  "existsSync w p = (nodes w p \<noteq> None)"

definition readFileSync :: "world \<Rightarrow> path \<Rightarrow> error + string" where
  "readFileSync w p =
     (case nodes w p of
        None \<Rightarrow> Inl (ENOENT p)
      | Some (Dir t) \<Rightarrow> Inl (EISDIR p)
      | Some (File c t) \<Rightarrow> Inr c)"

definition is_dir :: "world \<Rightarrow> path \<Rightarrow> bool" where
  "is_dir w p = (case nodes w p of Some (Dir t) \<Rightarrow> True | _ \<Rightarrow> False)"

definition parent_dir :: "path \<Rightarrow> path" where
  \<comment> \<open>the path up to its last slash; a path without a slash lies in the working directory\<close>
  "parent_dir p =
     (if CHR ''/'' \<notin> set p then ''.''
      else if rev (tl (dropWhile (\<lambda>c. c \<noteq> CHR ''/'') (rev p))) = [] then ''/''
      else rev (tl (dropWhile (\<lambda>c. c \<noteq> CHR ''/'') (rev p))))"

definition writeFileSync :: "path \<Rightarrow> string \<Rightarrow> world \<Rightarrow> error + world" where
  "writeFileSync p c w =
     (case nodes w p of
        Some (Dir t) \<Rightarrow> Inl (EISDIR p)
      | Some (File c0 t) \<Rightarrow> Inr (w\<lparr>nodes := (nodes w)(p \<mapsto> File c (clock w))\<rparr>)
      | None \<Rightarrow>
          if parent_dir p = ''.'' \<or> parent_dir p = ''/''
          then Inr (w\<lparr>nodes := (nodes w)(p \<mapsto> File c (clock w))\<rparr>)
          else (case nodes w (parent_dir p) of
                  Some (Dir t) \<Rightarrow> Inr (w\<lparr>nodes := (nodes w)(p \<mapsto> File c (clock w))\<rparr>)
                | Some (File c0 t) \<Rightarrow> Inl (ENOTDIR p)
                | None \<Rightarrow> Inl (ENOENT p)))"

definition writable :: "world \<Rightarrow> path \<Rightarrow> bool" where
  \<comment> \<open>where a write does not throw\<close>
  "writable w p =
     (\<not> is_dir w p
      \<and> (existsSync w p \<or> parent_dir p = ''.'' \<or> parent_dir p = ''/'' \<or> is_dir w (parent_dir p)))"

definition statSync :: "world \<Rightarrow> path \<Rightarrow> error + int" where
  "statSync w p =
     (case nodes w p of None \<Rightarrow> Inl (ENOENT p) | Some n \<Rightarrow> Inr (mtime n))"

definition utimesSync :: "path \<Rightarrow> int \<Rightarrow> world \<Rightarrow> error + world" where
  \<comment> \<open>the time is given in seconds, a modification time is read in milliseconds\<close>
  "utimesSync p secs w =
     (case nodes w p of
        None \<Rightarrow> Inl (ENOENT p)
      | Some n \<Rightarrow> Inr (w\<lparr>nodes := (nodes w)(p \<mapsto> set_mtime (secs * 1000) n)\<rparr>))"

definition ensureDirSync :: "path \<Rightarrow> world \<Rightarrow> error + world" where
  "ensureDirSync p w =
     (case nodes w p of
        None \<Rightarrow> Inr (w\<lparr>nodes := (nodes w)(p \<mapsto> Dir (clock w))\<rparr>)
      | Some (Dir t) \<Rightarrow> Inr w
      | Some (File c t) \<Rightarrow> Inl (EEXIST p))"

section \<open>Path Rewriter\<close>

definition findSrc :: string where
  \<open>findSrc = ''src="/''\<close>

definition replSrc :: string where
  \<open>replSrc = ''src="../''\<close>

definition findDirect :: string where
  \<open>findDirect = ''"/''\<close>

definition replDirect :: string where
  \<open>replDirect = ''"../''\<close>

definition is_markup :: "string \<Rightarrow> bool" where
  "is_markup file = (endsWith file ''.html'' \<or> endsWith file ''.xml'')"

definition rewrite_content :: "string \<Rightarrow> string \<Rightarrow> string" where
  "rewrite_content file content =
     (if is_markup file then replace_all findSrc replSrc content
      else replace_all findDirect replDirect content)"

text \<open>
  A step that may throw returns the error with the world as the throw leaves it, or its
  value with the new world.
\<close>

type_synonym 'a result = "(error \<times> world) + ('a \<times> world)"

fun replaceRootPaths :: "path \<Rightarrow> string list \<Rightarrow> world \<Rightarrow> unit result" where
  "replaceRootPaths folder [] w = Inr ((), w)"
| "replaceRootPaths folder (file # files) w =
     (let filepath = path_join folder file in
      if existsSync w filepath then
        (case readFileSync w filepath of
           Inl e \<Rightarrow> Inl (e, w)
         | Inr content \<Rightarrow>
             (case writeFileSync filepath (rewrite_content file content) w of
                Inl e \<Rightarrow> Inl (e, w)
              | Inr w' \<Rightarrow> replaceRootPaths folder files w'))
      else replaceRootPaths folder files w)"

section \<open>Favicon Orchestrator\<close>

text \<open>
  The favicon capability is external. One invocation ends, if it ends, by calling its
  callback once, with an error or with a response: images and auxiliary files (name and
  contents) and HTML fragments. What the capability answers, and when, is the
  environment's choice: it is given as the sequence of events that reach the event loop.
\<close>

record response =
  images :: "(string \<times> string) list"
  files :: "(string \<times> string) list"
  html :: "string list"

datatype fav_result = Failed string | Produced response

datatype event = FirstDone fav_result | TimerFires | RetryDone fav_result

datatype settled = Pending | Fulfilled "string list" | Rejected error

text \<open>
  The state of one call of \<open>generateFavicons\<close>: \<open>timer\<close> is the variable of that name
  (true while it holds the handle, false once the timeout callback has set it to null),
  \<open>scheduled\<close> says that the timeout is still waiting in the event loop (neither fired
  nor cleared), \<open>deadline\<close> is the time it is due, \<open>first_pending\<close> and
  \<open>retry_pending\<close> say which invocations of the capability have not called back yet,
  and \<open>promise\<close> is the state of the promise the call returns.
\<close>

record fstate =
  timer :: bool
  scheduled :: bool
  deadline :: int
  first_pending :: bool
  retry_pending :: bool
  promise :: settled
  wd :: world

fun write_all :: "path \<Rightarrow> (string \<times> string) list \<Rightarrow> world \<Rightarrow> error option \<times> world" where
  "write_all exportFolder [] w = (None, w)"
| "write_all exportFolder ((name, contents) # rest) w =
     (case writeFileSync (exportFolder @ ''/'' @ name) contents w of
        Inl e \<Rightarrow> (Some e, w)
      | Inr w' \<Rightarrow> write_all exportFolder rest w')"

definition promise_resolve :: "string list \<Rightarrow> fstate \<Rightarrow> fstate" where
  \<comment> \<open>\<open>resolve(r)\<close>, and the \<open>then\<close> continuation that runs when it settles the promise\<close>
  "promise_resolve r s =
     (if promise s = Pending
      then s\<lparr>promise := Fulfilled r,
             scheduled := (if timer s then False else scheduled s),
             wd := emit Stdout '' done\<newline>'' (wd s)\<rparr>
      else s)"

definition promise_reject :: "error \<Rightarrow> fstate \<Rightarrow> fstate" where
  "promise_reject e s = (if promise s = Pending then s\<lparr>promise := Rejected e\<rparr> else s)"

definition guarded_resolve :: "string list \<Rightarrow> fstate \<Rightarrow> fstate" where
  "guarded_resolve r s = (if timer s then promise_resolve r s else s)"

definition guarded_reject :: "error \<Rightarrow> fstate \<Rightarrow> fstate" where
  "guarded_reject e s = (if timer s then promise_reject e s else s)"

definition generateFav_callback ::
  "path \<Rightarrow> (string list \<Rightarrow> fstate \<Rightarrow> fstate) \<Rightarrow> (error \<Rightarrow> fstate \<Rightarrow> fstate) \<Rightarrow>
   fav_result \<Rightarrow> fstate \<Rightarrow> fstate" where
  \<comment> \<open>a write that throws ends the callback before it resolves\<close>
  "generateFav_callback exportFolder resolve reject res s =
     (case res of
        Failed e \<Rightarrow> reject (FaviconError e) s
      | Produced r \<Rightarrow>
          (case write_all exportFolder (images r) (wd s) of
             (Some e, w1) \<Rightarrow> s\<lparr>wd := w1\<rparr>
           | (None, w1) \<Rightarrow>
               (case write_all exportFolder (files r) w1 of
                  (Some e, w2) \<Rightarrow> s\<lparr>wd := w2\<rparr>
                | (None, w2) \<Rightarrow> resolve (html r) (s\<lparr>wd := w2\<rparr>))))"

definition invoke_favicons :: "world \<Rightarrow> world" where
  "invoke_favicons w = w\<lparr>fav_calls := Suc (fav_calls w)\<rparr>"

definition generateFavicons_start :: "world \<Rightarrow> fstate" where
  \<comment> \<open>the call up to its return: the timer is armed, the first attempt is under way\<close>
  "generateFavicons_start w =
     \<lparr>timer = True, scheduled = True, deadline = clock w + 30000,
      first_pending = True, retry_pending = False, promise = Pending,
      wd = invoke_favicons (emit Stdout ''generating favicons...'' w)\<rparr>"

definition on_timeout :: "fstate \<Rightarrow> fstate" where
  "on_timeout s =
     s\<lparr>timer := False, scheduled := False, retry_pending := True,
       wd := invoke_favicons
               (emit Stdout ''timed out, retrying...''
                  ((wd s)\<lparr>clock := max (clock (wd s)) (deadline s)\<rparr>))\<rparr>"

text \<open>
  One turn of the event loop. The first attempt calls back (its callback was given the
  guarded \<open>resolve\<close> and \<open>reject\<close>), the timeout fires (its callback logs, sets the
  timer variable to null and invokes the capability again with the promise's own
  \<open>resolve\<close> and \<open>reject\<close>), or the retry calls back. An event that cannot happen in a
  state (a second callback of an attempt, a timeout that was cleared or has fired)
  leaves the state as it is. When the timeout fires the clock is at its deadline at
  least.
\<close>

fun step :: "path \<Rightarrow> fstate \<Rightarrow> event \<Rightarrow> fstate" where
  "step exportFolder s (FirstDone res) =
     (if first_pending s
      then generateFav_callback exportFolder guarded_resolve guarded_reject res
             (s\<lparr>first_pending := False\<rparr>)
      else s)"
| "step exportFolder s TimerFires = (if scheduled s then on_timeout s else s)"
| "step exportFolder s (RetryDone res) =
     (if retry_pending s
      then generateFav_callback exportFolder promise_resolve promise_reject res
             (s\<lparr>retry_pending := False\<rparr>)
      else s)"

definition run :: "path \<Rightarrow> fstate \<Rightarrow> event list \<Rightarrow> fstate" where
  "run exportFolder s evs = foldl (step exportFolder) s evs"

fun await_settled :: "path \<Rightarrow> fstate \<Rightarrow> event list \<Rightarrow> fstate" where
  "await_settled exportFolder s [] = s"
| "await_settled exportFolder s (e # es) =
     (if promise s \<noteq> Pending then s else await_settled exportFolder (step exportFolder s e) es)"

definition generateFavicons :: "path \<Rightarrow> event list \<Rightarrow> world \<Rightarrow> fstate" where
  \<comment> \<open>the call as its caller awaits it: events are taken until the promise settles\<close>
  "generateFavicons exportFolder evs w = await_settled exportFolder (generateFavicons_start w) evs"

section \<open>Manifest Merger\<close>

text \<open>
  A maskable icon reference of the configuration, and an icon entry of the manifest. A
  manifest that parses is an object with an array \<open>icons\<close> of such entries (as the
  favicon capability writes it); its other members are kept as they are.
\<close>

record maskable =
  src :: string
  sizes :: "string option"
  type :: "string option"

record icon_entry = maskable +
  purpose :: "string option"

record manifest =
  icons :: "icon_entry list"
  others :: string

definition matches :: "path \<Rightarrow> icon_entry \<Rightarrow> bool" where
  "matches maskableIconPath icon = endsWith (src icon) (''/'' @ maskableIconPath)"

definition mark :: "path \<Rightarrow> icon_entry \<Rightarrow> icon_entry" where
  "mark maskableIconPath icon =
     (if matches maskableIconPath icon then icon\<lparr>purpose := Some ''any maskable''\<rparr> else icon)"

definition maskable_entry :: "maskable \<Rightarrow> icon_entry" where
  "maskable_entry m =
     \<lparr>src = ''../'' @ src m, sizes = sizes m, type = type m, purpose = Some ''maskable''\<rparr>"

definition found_in :: "path \<Rightarrow> icon_entry list \<Rightarrow> bool" where
  "found_in maskableIconPath is =
     (startsWith maskableIconPath ''pwa'' \<and> list_ex (matches maskableIconPath) is)"

definition merge_entry :: "path \<Rightarrow> maskable \<Rightarrow> icon_entry list \<Rightarrow> icon_entry list" where
  \<comment> \<open>the body of the loop for an icon whose file exists\<close>
  "merge_entry maskableIconPath m is =
     (let is1 = (if startsWith maskableIconPath ''pwa'' then map (mark maskableIconPath) is else is)
      in if found_in maskableIconPath is then is1 else is1 @ [maskable_entry m])"

definition missing_icon_warning :: "path \<Rightarrow> string" where
  \<open>missing_icon_warning p = ''maskable icon file ("'' @ p @ ''") does not exist''\<close>

definition merge_icon :: "path \<Rightarrow> maskable \<Rightarrow> manifest option \<Rightarrow> world \<Rightarrow> manifest option result" where
  \<comment> \<open>an undefined manifest has no \<open>icons\<close> to scan or to push to: a TypeError\<close>
  "merge_icon publicFolder m mf w =
     (let maskableIconPath = path_join publicFolder (src m) in
      if existsSync w maskableIconPath then
        (case mf of
           None \<Rightarrow> Inl (TypeError, w)
         | Some man \<Rightarrow> Inr (Some (man\<lparr>icons := merge_entry maskableIconPath m (icons man)\<rparr>), w))
      else Inr (mf, emit Stderr (missing_icon_warning maskableIconPath) w))"

fun merge_icons :: "path \<Rightarrow> maskable list \<Rightarrow> manifest option \<Rightarrow> world \<Rightarrow> manifest option result" where
  "merge_icons publicFolder [] mf w = Inr (mf, w)"
| "merge_icons publicFolder (m # ms) mf w =
     (case merge_icon publicFolder m mf w of
        Inl ew \<Rightarrow> Inl ew
      | Inr (mf', w') \<Rightarrow> merge_icons publicFolder ms mf' w')"

text \<open>
  \<open>JSON.parse\<close> and \<open>JSON.stringify\<close> are the platform's and Handlebars is a library:
  they are parameters. \<open>parseConfig\<close> and \<open>parseManifest\<close> give \<open>None\<close> where
  \<open>JSON.parse\<close> throws; \<open>render\<close> compiles the template text and applies it to the title
  and the three blobs, and gives \<open>None\<close> where Handlebars throws.
\<close>

record config =
  appName :: "string option"
  appShortDescription :: "string option"
  appShortName :: "string option"
  appDescription :: "string option"
  developerName :: "string option"
  developerURL :: "string option"
  background :: "string option"
  theme_color :: "string option"
  appleStatusBarStyle :: "string option"
  display :: "string option"
  url :: "string option"
  preview :: "string option"
  icon :: "string option"
  maskable_icons :: "maskable list option"
  ensName :: "string option"
  base :: "string option"

record env =
  parseConfig :: "string \<Rightarrow> config option"
  parseManifest :: "string \<Rightarrow> manifest option"
  stringifyManifest :: "manifest \<Rightarrow> string"
  render :: "string \<Rightarrow> string \<Rightarrow> string \<Rightarrow> string \<Rightarrow> string \<Rightarrow> string option"

definition parse_failure :: "path \<Rightarrow> string" where
  \<open>parse_failure manifestPath = ''failed to parse manifest ("'' @ manifestPath @ ''")''\<close>

definition write_failure :: "path \<Rightarrow> string" where
  \<open>write_failure manifestPath = ''failed to write manifest ("'' @ manifestPath @ ''")''\<close>

definition read_manifest :: "env \<Rightarrow> path \<Rightarrow> world \<Rightarrow> manifest option \<times> world" where
  \<comment> \<open>the first \<open>try\<close>: a read or a parse that throws is reported, the manifest stays undefined\<close>
  "read_manifest E manifestPath w =
     (case readFileSync w manifestPath of
        Inl e \<Rightarrow> (None, emit Stderr (parse_failure manifestPath) w)
      | Inr text \<Rightarrow>
          (case parseManifest E text of
             None \<Rightarrow> (None, emit Stderr (parse_failure manifestPath) w)
           | Some man \<Rightarrow> (Some man, w)))"

definition write_manifest :: "env \<Rightarrow> path \<Rightarrow> manifest option \<Rightarrow> world \<Rightarrow> world" where
  \<comment> \<open>the second \<open>try\<close>: \<open>JSON.stringify(undefined)\<close> is undefined, which \<open>writeFileSync\<close> refuses\<close>
  "write_manifest E manifestPath mf w =
     (case mf of
        None \<Rightarrow> emit Stderr (write_failure manifestPath) w
      | Some man \<Rightarrow>
          (case writeFileSync manifestPath (stringifyManifest E man) w of
             Inl e \<Rightarrow> emit Stderr (write_failure manifestPath) w
           | Inr w' \<Rightarrow> w'))"

definition patch_manifest :: "env \<Rightarrow> path \<Rightarrow> path \<Rightarrow> maskable list \<Rightarrow> world \<Rightarrow> unit result" where
  "patch_manifest E publicFolder faviconFolder ms w =
     (let manifestPath = path_join faviconFolder ''manifest.json'' in
      case read_manifest E manifestPath w of
        (mf, w1) \<Rightarrow>
          (case merge_icons publicFolder ms mf w1 of
             Inl ew \<Rightarrow> Inl ew
           | Inr (mf', w2) \<Rightarrow> Inr ((), write_manifest E manifestPath mf' w2)))"

section \<open>Document Assembler\<close>

definition makeHtmlAttributes :: "(string \<times> string option) list \<Rightarrow> string" where
  \<open>makeHtmlAttributes attributes =
     foldl (\<lambda>result (key, v). result @ '' '' @ key @ ''="'' @ js_str v @ ''"'') [] attributes\<close>

definition rebase :: "string \<Rightarrow> string \<Rightarrow> string" where
  \<open>rebase b text =
     replace_all ''content="/'' (''content="'' @ b)
       (replace_all ''href="/'' (''href="'' @ b)
          (replace_all ''src="/'' (''src="'' @ b) text))\<close>

text \<open>
  \<open>generateBasicIndexHTML\<close> is called once, with a list of meta objects: the test
  \<open>if (meta)\<close> holds. A base other than \<open>/\<close> takes the place of the leading slash of
  the \<open>src\<close>, \<open>href\<close> and \<open>content\<close> values of the two blobs.
\<close>

definition generateBasicIndexHTML ::
  "env \<Rightarrow> path \<Rightarrow> path \<Rightarrow> string \<Rightarrow> (string \<times> string option) list list \<Rightarrow> string list \<Rightarrow>
   string option \<Rightarrow> string option \<Rightarrow> world \<Rightarrow> unit result" where
  "generateBasicIndexHTML E templateFilePath folder title meta faviconsOutput targetFile b w0 =
     (let w = emit Stdout ''generating html...'' w0 in
      case readFileSync w templateFilePath of
        Inl e \<Rightarrow> Inl (e, w)
      | Inr templateContent \<Rightarrow>
          (let favicons0 = concat (map (\<lambda>faviconHTML. faviconHTML @ ''\<newline>'') faviconsOutput);
               metas = join_lines (map (\<lambda>input. ''<meta'' @ makeHtmlAttributes input @ ''>'') meta);
               metaTags0 = metas @ ''\<newline>'' @ ''\<newline>'';
               relocate = (case b of None \<Rightarrow> False | Some bs \<Rightarrow> bs \<noteq> ''/'');
               favicons = (if relocate then rebase (js_str b) favicons0 else favicons0);
               metaTags = (if relocate then rebase (js_str b) metaTags0 else metaTags0);
               metaTagsAndFavicons = metaTags @ ''\<newline>'' @ favicons
           in case render E templateContent title metaTags favicons metaTagsAndFavicons of
                None \<Rightarrow> Inl (TemplateError, w)
              | Some newHTMLString \<Rightarrow>
                  (let dest = (if truthy targetFile then js_str targetFile
                               else path_join folder ''index.html'')
                   in case writeFileSync dest newHTMLString w of
                        Inl e \<Rightarrow> Inl (e, w)
                      | Inr w' \<Rightarrow> Inr ((), emit Stdout '' done\<newline>'' w'))))"

section \<open>Staleness Gate and the pipeline\<close>

record options =
  configPath :: path
  templateFilePath :: path
  targetFolder :: path
  cachePath :: "string option"
  targetFile :: "string option"
  applicationURL :: "string option"
  version :: "string option"
  force :: bool

text \<open>
  How a run of \<open>generateApp\<close> ends: the process exits with a status, the function
  returns at the gate, it returns after the whole pipeline, its promise rejects with an
  error, or it never gets past the favicon call.
\<close>

datatype outcome = Exited nat | Skipped | Completed | Rejects error | Hangs

function digits :: "nat \<Rightarrow> string" where
  "digits n =
     (if n < 10 then [''0123456789'' ! n]
      else digits (n div 10) @ [''0123456789'' ! (n mod 10)])"
  by pat_completeness auto
termination
  by (relation "measure id") auto

declare digits.simps [simp del]

definition toString :: "int \<Rightarrow> string" where
  "toString i = (if i < 0 then ''-'' @ digits (nat (- i)) else digits (nat i))"

definition required_message :: "path \<Rightarrow> string" where
  "required_message p = ''The '' @ p @ '' file is required to prepare the web application''"

definition preparing_message :: "path \<Rightarrow> path \<Rightarrow> string" where
  "preparing_message c t = ''preparing from '' @ c @ '' to '' @ t @ ''...''"

definition cache_file :: "options \<Rightarrow> world \<Rightarrow> path" where
  "cache_file opts w =
     (if truthy (cachePath opts) then js_str (cachePath opts)
      else if existsSync w ''node_modules''
           then path_join ''node_modules'' ''.prepare-for-web-cache''
           else ''.prepare-for-web-cache'')"

definition other_sources :: "options \<Rightarrow> config \<Rightarrow> path list" where
  "other_sources opts cfg =
     [templateFilePath opts]
     @ (if truthy (icon cfg) then [js_str (icon cfg)] else [])
     @ (case maskable_icons cfg of
          None \<Rightarrow> []
        | Some ms \<Rightarrow> map (\<lambda>maskableIcon. path_join (targetFolder opts) (src maskableIcon)) ms)"

definition sources_of :: "options \<Rightarrow> config \<Rightarrow> path list" where
  "sources_of opts cfg = configPath opts # other_sources opts cfg"

definition source_time :: "world \<Rightarrow> path \<Rightarrow> int" where
  \<comment> \<open>a source that cannot be stat'ed counts as the current time\<close>
  "source_time w v = (case statSync w v of Inl e \<Rightarrow> clock w | Inr t \<Rightarrow> t)"

definition maxTime :: "world \<Rightarrow> options \<Rightarrow> config \<Rightarrow> int" where
  "maxTime w opts cfg =
     fold max (map (source_time w) (other_sources opts cfg)) (source_time w (configPath opts))"

definition lastTime :: "world \<Rightarrow> path \<Rightarrow> int" where
  "lastTime w CACHE_FILE = (case statSync w CACHE_FILE of Inl e \<Rightarrow> 0 | Inr t \<Rightarrow> t)"

definition fresh :: "world \<Rightarrow> options \<Rightarrow> config \<Rightarrow> bool" where
  \<comment> \<open>the condition of the early return\<close>
  "fresh w opts cfg = (\<not> force opts \<and> lastTime w (cache_file opts w) \<ge> maxTime w opts cfg)"

definition ens_name :: "string option \<Rightarrow> string option \<Rightarrow> string option" where
  \<comment> \<open>the name written to robots.txt, if any\<close>
  "ens_name declared u =
     (let e1 = (case declared of
                  None \<Rightarrow> None
                | Some e \<Rightarrow> if e \<noteq> [] \<and> \<not> endsWith e ''.eth'' then Some (e @ ''.eth'') else Some e);
          e2 = (case u of
                  None \<Rightarrow> e1
                | Some us \<Rightarrow>
                    if \<not> truthy e1 \<and> us \<noteq> [] \<and> (endsWith us ''.eth.link'' \<or> endsWith us ''.eth.limo'')
                    then Some (take (length us - 5) us) else e1)
      in case e2 of
           None \<Rightarrow> None
         | Some e \<Rightarrow>
             if e = [] then None
             else (let e3 = (if startsWith e ''https://'' then drop 8 e else e);
                       e4 = (if startsWith e3 ''http://'' then drop 7 e3 else e3)
                   in Some e4))"

definition write_robots :: "path \<Rightarrow> string option \<Rightarrow> world \<Rightarrow> error + world" where
  "write_robots publicFolder name w =
     (case name of
        None \<Rightarrow> Inr w
      | Some e \<Rightarrow> writeFileSync (path_join publicFolder ''robots.txt'') (''Dwebsite: '' @ e) w)"

definition meta_of :: "string \<Rightarrow> config \<Rightarrow> string option \<Rightarrow> string \<Rightarrow> (string \<times> string option) list list" where
  "meta_of title cfg u previewURL =
     [[(''charset'', Some ''utf-8'')],
      [(''name'', Some ''viewport''), (''content'', Some ''width=device-width,initial-scale=1'')],
      [(''name'', Some ''title''), (''content'', Some title)],
      [(''name'', Some ''description''), (''content'', appDescription cfg)],
      [(''property'', Some ''og:type''), (''content'', Some ''website'')],
      [(''property'', Some ''og:url''), (''content'', u)],
      [(''property'', Some ''og:title''), (''content'', Some title)],
      [(''property'', Some ''og:description''), (''content'', appDescription cfg)],
      [(''property'', Some ''og:image''), (''content'', Some previewURL)],
      [(''property'', Some ''twitter:card''), (''content'', Some ''summary_large_image'')],
      [(''property'', Some ''twitter:url''), (''content'', u)],
      [(''property'', Some ''twitter:title''), (''content'', Some title)],
      [(''property'', Some ''twitter:description''), (''content'', appDescription cfg)],
      [(''property'', Some ''twitter:image''), (''content'', Some previewURL)]]"

definition rewritten_files :: "string list" where
  "rewritten_files =
     [''manifest.json'', ''yandex-browser-manifest.json'', ''manifest.webapp'', ''browserconfig.xml'']"

fun touch_sources :: "path list \<Rightarrow> int \<Rightarrow> world \<Rightarrow> world" where
  \<comment> \<open>\<open>utimesSync\<close> in a \<open>try\<close> with an empty \<open>catch\<close>\<close>
  "touch_sources [] now w = w"
| "touch_sources (source # rest) now w =
     (case utimesSync source now w of
        Inl e \<Rightarrow> touch_sources rest now w
      | Inr w' \<Rightarrow> touch_sources rest now w')"

definition commit_cache :: "path \<Rightarrow> path list \<Rightarrow> int \<Rightarrow> world \<Rightarrow> unit result" where
  "commit_cache CACHE_FILE sources now w0 =
     (let w1 = touch_sources sources now (emit Stdout ''caching...'' w0) in
      case writeFileSync CACHE_FILE (toString (clock w1)) w1 of
        Inl e \<Rightarrow> Inl (e, w1)
      | Inr w2 \<Rightarrow>
          (case utimesSync CACHE_FILE now w2 of
             Inl e \<Rightarrow> Inl (e, w2)
           | Inr w3 \<Rightarrow> Inr ((), emit Stdout ''done\<newline>'' w3)))"

definition after_favicons ::
  "env \<Rightarrow> options \<Rightarrow> config \<Rightarrow> string option \<Rightarrow> path \<Rightarrow> int \<Rightarrow> string list \<Rightarrow> world \<Rightarrow> outcome \<times> world" where
  \<comment> \<open>from the manifest merge to the cache commit\<close>
  "after_favicons E opts cfg u CACHE_FILE now faviconsOutput w =
     (let publicFolder = targetFolder opts;
          faviconFolder = path_join publicFolder ''pwa'';
          title = js_str (appName cfg) @ '' - '' @ js_str (appShortDescription cfg);
          previewURL = js_str u @ ''/'' @ (if truthy (preview cfg) then js_str (preview cfg) else ''preview.png'')
      in case (case maskable_icons cfg of
                 None \<Rightarrow> Inr ((), w)
               | Some ms \<Rightarrow> patch_manifest E publicFolder faviconFolder ms w) of
           Inl (e, w') \<Rightarrow> (Rejects e, w')
         | Inr (x, w1) \<Rightarrow>
             (case replaceRootPaths faviconFolder rewritten_files w1 of
                Inl (e, w') \<Rightarrow> (Rejects e, w')
              | Inr (x, w2) \<Rightarrow>
                  (case generateBasicIndexHTML E (templateFilePath opts) publicFolder title
                          (meta_of title cfg u previewURL) faviconsOutput (targetFile opts) (base cfg) w2 of
                     Inl (e, w') \<Rightarrow> (Rejects e, w')
                   | Inr (x, w3) \<Rightarrow>
                       (case commit_cache CACHE_FILE (sources_of opts cfg) now w3 of
                          Inl (e, w') \<Rightarrow> (Rejects e, w')
                        | Inr (x, w4) \<Rightarrow> (Completed, w4)))))"

definition build ::
  "env \<Rightarrow> options \<Rightarrow> config \<Rightarrow> path \<Rightarrow> int \<Rightarrow> event list \<Rightarrow> world \<Rightarrow> outcome \<times> world" where
  \<comment> \<open>the pipeline past the gate\<close>
  "build E opts cfg CACHE_FILE now evs w =
     (let publicFolder = targetFolder opts;
          u = (if truthy (applicationURL opts) then applicationURL opts else url cfg)
      in case write_robots publicFolder (ens_name (ensName cfg) u) w of
           Inl e \<Rightarrow> (Rejects e, w)
         | Inr w1 \<Rightarrow>
             (let faviconFolder = path_join publicFolder ''pwa'' in
              case ensureDirSync faviconFolder w1 of
                Inl e \<Rightarrow> (Rejects e, w1)
              | Inr w2 \<Rightarrow>
                  (let s = generateFavicons faviconFolder evs w2 in
                   case promise s of
                     Pending \<Rightarrow> (Hangs, wd s)
                   | Rejected e \<Rightarrow> (Rejects e, wd s)
                   | Fulfilled faviconsOutput \<Rightarrow>
                       after_favicons E opts cfg u CACHE_FILE now faviconsOutput (wd s))))"

definition generateApp :: "env \<Rightarrow> options \<Rightarrow> event list \<Rightarrow> world \<Rightarrow> outcome \<times> world" where
  "generateApp E opts evs w0 =
     (let publicFolder = targetFolder opts;
          w1 = emit Stdout (preparing_message (configPath opts) publicFolder) w0
      in case ensureDirSync publicFolder w1 of
           Inl e \<Rightarrow> (Rejects e, w1)
         | Inr w \<Rightarrow>
             if \<not> existsSync w (configPath opts)
             then (Exited 1, emit Stderr (required_message (configPath opts)) w)
             else if \<not> existsSync w (templateFilePath opts)
             then (Exited 1, emit Stderr (required_message (templateFilePath opts)) w)
             else
               (let CACHE_FILE = cache_file opts w;
                    now = clock w div 1000
                in case readFileSync w (configPath opts) of
                     Inl e \<Rightarrow> (Rejects e, w)
                   | Inr text \<Rightarrow>
                       (case parseConfig E text of
                          None \<Rightarrow> (Rejects SyntaxError, w)
                        | Some cfg \<Rightarrow>
                            if fresh w opts cfg then (Skipped, w)
                            else build E opts cfg CACHE_FILE now evs w)))"

section \<open>Notions for the statements, and concrete worlds\<close>

definition rewrite_demo :: world where
  \<open>rewrite_demo =
     \<lparr>nodes = [''public/pwa/manifest.json'' \<mapsto> File ''{"src":"/pwa/icon.png"}'' 5,
               ''public/pwa/browserconfig.xml'' \<mapsto> File ''<logo src="/pwa/m.png"/><a href="/x"/>'' 5,
               ''public/index.html'' \<mapsto> File ''<img src="/a.png">'' 5],
      clock = 9, log = [], fav_calls = 0\<rparr>\<close>

definition json_member :: "string \<Rightarrow> string \<Rightarrow> string \<Rightarrow> string" where
  \<comment> \<open>the text of a member of a JSON object whose value is a string: key, separator, value\<close>
  \<open>json_member k sep v = ''"'' @ k @ ''"'' @ sep @ ''"'' @ v @ ''"''\<close>

definition scope_demo :: world where
  \<open>scope_demo =
     \<lparr>nodes = [''index.template.html'' \<mapsto> File ''<html>'' 1000,
               ''public'' \<mapsto> Dir 500, ''public/pwa'' \<mapsto> Dir 500,
               ''public/pwa/manifest.json'' \<mapsto>
                 File ''{"scope": "/", "start_url": "/", "icons": [{"src": "/pwa/a.png"}]}'' 5400],
      clock = 5400, log = [], fav_calls = 1\<rparr>\<close>

definition writes_ok :: "path \<Rightarrow> response \<Rightarrow> world \<Rightarrow> bool" where
  \<comment> \<open>every image and file of the response can be written\<close>
  "writes_ok exportFolder r w =
     list_all (\<lambda>(name, contents). writable w (exportFolder @ ''/'' @ name)) (images r @ files r)"

definition settles_as :: "fav_result \<Rightarrow> settled" where
  \<comment> \<open>what an unguarded \<open>resolve\<close> or \<open>reject\<close> makes of an attempt's result\<close>
  "settles_as res = (case res of Failed e \<Rightarrow> Rejected (FaviconError e) | Produced r \<Rightarrow> Fulfilled (html r))"

definition favicon_demo :: world where
  "favicon_demo = \<lparr>nodes = [''pwa'' \<mapsto> Dir 0], clock = 1000, log = [], fav_calls = 0\<rparr>"

definition late_response :: response where
  "late_response =
     \<lparr>images = [(''icon.png'', ''LATE'')], files = [(''manifest.json'', ''{}'')], html = [''<link late>'']\<rparr>"

definition retry_response :: response where
  "retry_response = \<lparr>images = [(''icon.png'', ''RETRY'')], files = [], html = [''<link retry>'']\<rparr>"


definition generated_icon :: "string \<Rightarrow> icon_entry" where
  \<comment> \<open>an icon entry as the favicon capability lists it\<close>
  "generated_icon s = \<lparr>src = s, sizes = Some ''192x192'', type = Some ''image/png'', purpose = None\<rparr>"

definition maskable_ref :: "string \<Rightarrow> maskable" where
  "maskable_ref s = \<lparr>src = s, sizes = Some ''192x192'', type = Some ''image/png''\<rparr>"

definition demo_config :: config where
  "demo_config =
     \<lparr>appName = Some ''App'', appShortDescription = Some ''a demo'', appShortName = Some ''App'',
      appDescription = Some ''A demo application'', developerName = None, developerURL = None,
      background = None, theme_color = None, appleStatusBarStyle = None, display = None,
      url = Some ''https://example.com'', preview = None, icon = Some ''icon.png'',
      maskable_icons = None, ensName = None, base = None\<rparr>"

definition maskable_config :: config where
  "maskable_config = demo_config\<lparr>maskable_icons := Some [maskable_ref ''m.png'']\<rparr>"

definition demo_env :: env where
  "demo_env =
     \<lparr>parseConfig = (\<lambda>s. if s = ''{}'' then Some demo_config
                         else if s = ''{maskable}'' then Some maskable_config else None),
      parseManifest = (\<lambda>s. if s = ''{icons}''
                           then Some \<lparr>icons = [generated_icon ''/pwa/android-chrome-192x192.png''],
                                      others = ''{}''\<rparr>
                           else None),
      stringifyManifest = (\<lambda>man. concat (map src (icons man))),
      render = (\<lambda>template title metaTags favicons metaTagsAndFavicons.
                  Some (template @ title @ favicons))\<rparr>"

definition demo_options :: options where
  "demo_options =
     \<lparr>configPath = ''application.json'', templateFilePath = ''index.template.html'',
      targetFolder = ''public'', cachePath = None, targetFile = None, applicationURL = None,
      version = None, force = False\<rparr>"

definition gate_demo :: world where
  "gate_demo =
     \<lparr>nodes = [''application.json'' \<mapsto> File ''{}'' 1000,
               ''index.template.html'' \<mapsto> File ''<html>'' 1000,
               ''icon.png'' \<mapsto> File ''PNG'' 2000,
               ''.prepare-for-web-cache'' \<mapsto> File ''3000'' 3000],
      clock = 5000, log = [], fav_calls = 0\<rparr>"

definition maskable_demo :: world where
  "maskable_demo =
     \<lparr>nodes = [''application.json'' \<mapsto> File ''{maskable}'' 1000,
               ''index.template.html'' \<mapsto> File ''<html>'' 1000,
               ''icon.png'' \<mapsto> File ''PNG'' 2000,
               ''public'' \<mapsto> Dir 500,
               ''public/m.png'' \<mapsto> File ''PNG'' 2000],
      clock = 5000, log = [], fav_calls = 0\<rparr>"

text \<open>
  For the frame of a run: the path of the document, the paths a run may write before
  the cache commit, and what every step before the commit keeps: the nodes outside
  those paths, the directories, and a clock that does not go back; a node that is not
  as it was has been made or written since, so that its time is not before the clock.
\<close>

definition dest_of :: "options \<Rightarrow> path" where
  "dest_of opts =
     (if truthy (targetFile opts) then js_str (targetFile opts)
      else path_join (targetFolder opts) ''index.html'')"

definition is_output :: "options \<Rightarrow> path \<Rightarrow> bool" where
  "is_output opts p =
     (let publicFolder = targetFolder opts;
          faviconFolder = path_join publicFolder ''pwa''
      in p = publicFolder \<or> p = path_join publicFolder ''robots.txt''
         \<or> p = faviconFolder \<or> prefix (faviconFolder @ ''/'') p
         \<or> p = path_join faviconFolder ''manifest.json''
         \<or> p \<in> path_join faviconFolder ` set rewritten_files
         \<or> p = dest_of opts)"

definition preserves :: "options \<Rightarrow> world \<Rightarrow> world \<Rightarrow> bool" where
  "preserves opts w w' =
     ((\<forall>p. \<not> is_output opts p \<longrightarrow> nodes w' p = nodes w p)
      \<and> (\<forall>p. is_dir w p \<longrightarrow> is_dir w' p)
      \<and> (\<forall>p. nodes w' p = nodes w p \<or> (\<exists>n. nodes w' p = Some n \<and> clock w \<le> mtime n))
      \<and> clock w \<le> clock w')"

definition world_of :: "'a result \<Rightarrow> world" where
  "world_of r = (case r of Inl (e, w) \<Rightarrow> w | Inr (x, w) \<Rightarrow> w)"

definition entry :: "env \<Rightarrow> options \<Rightarrow> world \<Rightarrow> (outcome \<times> world) + (config \<times> world)" where
  \<comment> \<open>\<open>generateApp\<close> up to the parsed configuration, before the gate's test\<close>
  "entry E opts w0 =
     (let publicFolder = targetFolder opts;
          w1 = emit Stdout (preparing_message (configPath opts) publicFolder) w0
      in case ensureDirSync publicFolder w1 of
           Inl e \<Rightarrow> Inl (Rejects e, w1)
         | Inr w \<Rightarrow>
             if \<not> existsSync w (configPath opts)
             then Inl (Exited 1, emit Stderr (required_message (configPath opts)) w)
             else if \<not> existsSync w (templateFilePath opts)
             then Inl (Exited 1, emit Stderr (required_message (templateFilePath opts)) w)
             else
               (case readFileSync w (configPath opts) of
                  Inl e \<Rightarrow> Inl (Rejects e, w)
                | Inr text \<Rightarrow>
                    (case parseConfig E text of
                       None \<Rightarrow> Inl (Rejects SyntaxError, w)
                     | Some cfg \<Rightarrow> Inr (cfg, w))))"

definition build_demo :: world where
  "build_demo =
     \<lparr>nodes = [''application.json'' \<mapsto> File ''{}'' 1000,
               ''index.template.html'' \<mapsto> File ''<html>'' 1000,
               ''icon.png'' \<mapsto> File ''PNG'' 2000,
               ''public'' \<mapsto> Dir 500],
      clock = 5400, log = [], fav_calls = 0\<rparr>"

definition marker_options :: options where
  \<comment> \<open>the cache marker is to lie in a directory that does not exist\<close>
  "marker_options = demo_options\<lparr>cachePath := Some ''cache/marker''\<rparr>"

definition cachedir_options :: options where
  \<comment> \<open>the cache path names a directory\<close>
  "cachedir_options = demo_options\<lparr>cachePath := Some ''cachedir''\<rparr>"

definition cachedir_demo :: world where
  "cachedir_demo =
     \<lparr>nodes = [''application.json'' \<mapsto> File ''{}'' 1000,
               ''index.template.html'' \<mapsto> File ''<html>'' 1000,
               ''icon.png'' \<mapsto> File ''PNG'' 5300,
               ''public'' \<mapsto> Dir 500,
               ''cachedir'' \<mapsto> Dir 5200],
      clock = 5400, log = [], fav_calls = 0\<rparr>"

section \<open>Writing a file\<close>

lemma writeFileSync_written:
  "writeFileSync p c w = Inr w' \<Longrightarrow> w' = w\<lparr>nodes := (nodes w)(p \<mapsto> File c (clock w))\<rparr>"
  by (auto simp: writeFileSync_def split: option.splits node.splits if_splits)

lemma writeFileSync_writable:
  "writable w p \<Longrightarrow> writeFileSync p c w = Inr (w\<lparr>nodes := (nodes w)(p \<mapsto> File c (clock w))\<rparr>)"
  by (auto simp: writeFileSync_def writable_def is_dir_def existsSync_def
      split: option.splits node.splits)

lemma writeFileSync_throws:
  "writeFileSync p c w = Inl e \<Longrightarrow> \<not> writable w p \<and> (e = EISDIR p \<or> e = ENOTDIR p \<or> e = ENOENT p)"
  by (auto simp: writeFileSync_def writable_def is_dir_def existsSync_def
      split: option.splits node.splits if_splits)

lemma is_dir_written:
  "is_dir (w\<lparr>nodes := (nodes w)(p \<mapsto> File c t)\<rparr>) q = (q \<noteq> p \<and> is_dir w q)"
  by (simp add: is_dir_def)

lemma writable_written:
  "writable w p \<Longrightarrow> writable w q \<Longrightarrow> writable (w\<lparr>nodes := (nodes w)(p \<mapsto> File c t)\<rparr>) q"
  by (auto simp: writable_def is_dir_written existsSync_def)

section \<open>Path Rewriter: every occurrence, listed files only\<close>

lemma replace_all_append:
  assumes "\<And>k. 0 < k \<Longrightarrow> k < length pat \<Longrightarrow> \<not> (suffix (take k pat) a \<and> prefix (drop k pat) b)"
  shows "replace_all pat rep (a @ b) = replace_all pat rep a @ replace_all pat rep b"
  using assms
proof (induction pat rep a rule: replace_all.induct)
  case (1 pat rep)
  then show ?case by simp
next
  case (2 pat rep c cs)
  show ?case
  proof (cases "pat \<noteq> [] \<and> prefix pat (c # cs)")
    case True
    then have len: "length pat \<le> length (c # cs)"
      by (auto dest: prefix_length_le)
    from True have pre: "prefix pat ((c # cs) @ b)"
      by (metis prefix_prefix)
    have nostr: "\<And>k. 0 < k \<Longrightarrow> k < length pat \<Longrightarrow>
        \<not> (suffix (take k pat) (drop (length pat) (c # cs)) \<and> prefix (drop k pat) b)"
      using "2.prems" by (meson suffix_drop suffix_order.trans)
    have "replace_all pat rep (drop (length pat) (c # cs) @ b)
        = replace_all pat rep (drop (length pat) (c # cs)) @ replace_all pat rep b"
      using "2.IH"(1) [OF True] nostr by blast
    moreover have "drop (length pat) ((c # cs) @ b) = drop (length pat) (c # cs) @ b"
      using len drop_append [of "length pat" "c # cs" b] by simp
    ultimately show ?thesis using True pre by simp
  next
    case False
    have nopre: "\<not> (pat \<noteq> [] \<and> prefix pat ((c # cs) @ b))"
    proof
      assume h: "pat \<noteq> [] \<and> prefix pat ((c # cs) @ b)"
      with False have np: "\<not> prefix pat (c # cs)" by simp
      from h have "prefix pat (c # cs) \<or> (\<exists>us. pat = (c # cs) @ us \<and> prefix us b)"
        using prefix_append [of pat "c # cs" b] by blast
      with np obtain us where us: "pat = (c # cs) @ us" "prefix us b"
        by blast
      with np have "us \<noteq> []" by auto
      with us have "0 < length (c # cs)" "length (c # cs) < length pat"
        "suffix (take (length (c # cs)) pat) (c # cs)" "prefix (drop (length (c # cs)) pat) b"
        by auto
      with "2.prems" show False by blast
    qed
    have nostr: "\<And>k. 0 < k \<Longrightarrow> k < length pat \<Longrightarrow>
        \<not> (suffix (take k pat) cs \<and> prefix (drop k pat) b)"
      using "2.prems" by (meson suffix_Cons)
    have "replace_all pat rep (cs @ b) = replace_all pat rep cs @ replace_all pat rep b"
      using "2.IH"(2) [OF False] nostr by blast
    moreover have "replace_all pat rep (c # cs) = c # replace_all pat rep cs"
      using False by auto
    moreover have "replace_all pat rep (c # (cs @ b)) = c # replace_all pat rep (cs @ b)"
      using nopre by auto
    ultimately show ?thesis by simp
  qed
qed

lemma replace_all_match: "pat \<noteq> [] \<Longrightarrow> replace_all pat rep (pat @ b) = rep @ replace_all pat rep b"
  by (cases pat) auto

lemma replace_all_absent:
  "\<not> (\<exists>a b. s = a @ pat @ b) \<Longrightarrow> replace_all pat rep s = s"
proof (induction pat rep s rule: replace_all.induct)
  case (1 pat rep)
  then show ?case by simp
next
  case (2 pat rep c cs)
  have np: "\<not> prefix pat (c # cs)"
    using "2.prems" by (metis append_Nil prefix_def)
  have "\<not> (\<exists>a b. cs = a @ pat @ b)"
    using "2.prems" by (metis append_Cons)
  moreover have "replace_all pat rep (c # cs) = c # replace_all pat rep cs"
    using np by auto
  ultimately show ?case using "2.IH"(2) np by simp
qed


lemma findDirect_split:
  "replace_all findDirect replDirect (pre @ findDirect @ post)
     = replace_all findDirect replDirect pre @ replDirect @ replace_all findDirect replDirect post"
proof -
  have "\<And>k. 0 < k \<Longrightarrow> k < length findDirect \<Longrightarrow>
          \<not> (suffix (take k findDirect) pre \<and> prefix (drop k findDirect) (findDirect @ post))"
  proof -
    fix k :: nat assume "0 < k" "k < length findDirect"
    then have "k = 1" by (simp add: findDirect_def)
    then show "\<not> (suffix (take k findDirect) pre \<and> prefix (drop k findDirect) (findDirect @ post))"
      by (simp add: findDirect_def)
  qed
  then have "replace_all findDirect replDirect (pre @ findDirect @ post)
     = replace_all findDirect replDirect pre @ replace_all findDirect replDirect (findDirect @ post)"
    by (rule replace_all_append)
  moreover have "findDirect \<noteq> []" by (simp add: findDirect_def)
  ultimately show ?thesis by (simp add: replace_all_match)
qed

lemma findSrc_split:
  "replace_all findSrc replSrc (pre @ findSrc @ post)
     = replace_all findSrc replSrc pre @ replSrc @ replace_all findSrc replSrc post"
proof -
  have "\<And>k. 0 < k \<Longrightarrow> k < length findSrc \<Longrightarrow>
          \<not> (suffix (take k findSrc) pre \<and> prefix (drop k findSrc) (findSrc @ post))"
  proof -
    fix k :: nat assume "0 < k" "k < length findSrc"
    then have "k = 1 \<or> k = 2 \<or> k = 3 \<or> k = 4 \<or> k = 5" by (simp add: findSrc_def) arith
    then show "\<not> (suffix (take k findSrc) pre \<and> prefix (drop k findSrc) (findSrc @ post))"
      by (auto simp: findSrc_def)
  qed
  then have "replace_all findSrc replSrc (pre @ findSrc @ post)
     = replace_all findSrc replSrc pre @ replace_all findSrc replSrc (findSrc @ post)"
    by (rule replace_all_append)
  moreover have "findSrc \<noteq> []" by (simp add: findSrc_def)
  ultimately show ?thesis by (simp add: replace_all_match)
qed

lemma replaceRootPaths_absent:
  "nodes w (path_join folder name) = None \<Longrightarrow>
   replaceRootPaths folder (name # names) w = replaceRootPaths folder names w"
  by (simp add: existsSync_def)

lemma replaceRootPaths_file:
  "nodes w (path_join folder name) = Some (File c t) \<Longrightarrow>
   replaceRootPaths folder (name # names) w
     = replaceRootPaths folder names
         (w\<lparr>nodes := (nodes w)(path_join folder name \<mapsto> File (rewrite_content name c) (clock w))\<rparr>)"
  by (simp add: existsSync_def readFileSync_def writeFileSync_def)

lemma replaceRootPaths_spec:
  assumes "\<forall>f\<in>set names. \<forall>t. nodes w (path_join folder f) \<noteq> Some (Dir t)"
  shows "\<exists>w'. replaceRootPaths folder names w = Inr ((), w')
      \<and> clock w' = clock w \<and> log w' = log w \<and> fav_calls w' = fav_calls w
      \<and> (\<forall>p. p \<notin> path_join folder ` set names \<longrightarrow> nodes w' p = nodes w p)
      \<and> (\<forall>f\<in>set names. nodes w (path_join folder f) = None \<longrightarrow> nodes w' (path_join folder f) = None)
      \<and> (\<forall>f\<in>set names. \<forall>t. nodes w' (path_join folder f) \<noteq> Some (Dir t))
      \<and> (distinct (map (path_join folder) names) \<longrightarrow>
          (\<forall>f\<in>set names. \<forall>c t. nodes w (path_join folder f) = Some (File c t) \<longrightarrow>
             nodes w' (path_join folder f) = Some (File (rewrite_content f c) (clock w))))"
  using assms
proof (induction names arbitrary: w)
  case Nil
  then show ?case by simp
next
  case (Cons f0 fs)
  let ?p0 = "path_join folder f0"
  show ?case
  proof (cases "nodes w ?p0")
    case None
    have "\<forall>f\<in>set fs. \<forall>t. nodes w (path_join folder f) \<noteq> Some (Dir t)"
      using Cons.prems by simp
    from Cons.IH [OF this] obtain w' where w':
      "replaceRootPaths folder fs w = Inr ((), w')"
      "clock w' = clock w" "log w' = log w" "fav_calls w' = fav_calls w"
      "\<forall>p. p \<notin> path_join folder ` set fs \<longrightarrow> nodes w' p = nodes w p"
      "\<forall>f\<in>set fs. nodes w (path_join folder f) = None \<longrightarrow> nodes w' (path_join folder f) = None"
      "\<forall>f\<in>set fs. \<forall>t. nodes w' (path_join folder f) \<noteq> Some (Dir t)"
      "distinct (map (path_join folder) fs) \<longrightarrow>
          (\<forall>f\<in>set fs. \<forall>c t. nodes w (path_join folder f) = Some (File c t) \<longrightarrow>
             nodes w' (path_join folder f) = Some (File (rewrite_content f c) (clock w)))"
      by blast
    have p0: "nodes w' ?p0 = None"
      using w'(5,6) None by (cases "?p0 \<in> path_join folder ` set fs") auto
    have "replaceRootPaths folder (f0 # fs) w = Inr ((), w')"
      using replaceRootPaths_absent [OF None] w'(1) by simp
    moreover have "\<forall>p. p \<notin> path_join folder ` set (f0 # fs) \<longrightarrow> nodes w' p = nodes w p"
      using w'(5) by simp
    moreover have "\<forall>f\<in>set (f0 # fs). nodes w (path_join folder f) = None \<longrightarrow> nodes w' (path_join folder f) = None"
      using w'(6) p0 by simp
    moreover have "\<forall>f\<in>set (f0 # fs). \<forall>t. nodes w' (path_join folder f) \<noteq> Some (Dir t)"
      using w'(7) p0 by simp
    moreover have "distinct (map (path_join folder) (f0 # fs)) \<longrightarrow>
          (\<forall>f\<in>set (f0 # fs). \<forall>c t. nodes w (path_join folder f) = Some (File c t) \<longrightarrow>
             nodes w' (path_join folder f) = Some (File (rewrite_content f c) (clock w)))"
      using w'(8) None by auto
    ultimately show ?thesis using w'(2,3,4) by blast
  next
    case (Some n)
    then obtain c t where ct: "nodes w ?p0 = Some (File c t)"
      using Cons.prems by (cases n) auto
    let ?w1 = "w\<lparr>nodes := (nodes w)(?p0 \<mapsto> File (rewrite_content f0 c) (clock w))\<rparr>"
    have "\<forall>f\<in>set fs. \<forall>t. nodes ?w1 (path_join folder f) \<noteq> Some (Dir t)"
      using Cons.prems by simp
    from Cons.IH [OF this] obtain w' where w':
      "replaceRootPaths folder fs ?w1 = Inr ((), w')"
      "clock w' = clock ?w1" "log w' = log ?w1" "fav_calls w' = fav_calls ?w1"
      "\<forall>p. p \<notin> path_join folder ` set fs \<longrightarrow> nodes w' p = nodes ?w1 p"
      "\<forall>f\<in>set fs. nodes ?w1 (path_join folder f) = None \<longrightarrow> nodes w' (path_join folder f) = None"
      "\<forall>f\<in>set fs. \<forall>t. nodes w' (path_join folder f) \<noteq> Some (Dir t)"
      "distinct (map (path_join folder) fs) \<longrightarrow>
          (\<forall>f\<in>set fs. \<forall>c t. nodes ?w1 (path_join folder f) = Some (File c t) \<longrightarrow>
             nodes w' (path_join folder f) = Some (File (rewrite_content f c) (clock ?w1)))"
      by blast
    have "replaceRootPaths folder (f0 # fs) w = Inr ((), w')"
      using replaceRootPaths_file [OF ct] w'(1) by simp
    moreover have "\<forall>p. p \<notin> path_join folder ` set (f0 # fs) \<longrightarrow> nodes w' p = nodes w p"
      using w'(5) by simp
    moreover have "\<forall>f\<in>set (f0 # fs). nodes w (path_join folder f) = None \<longrightarrow> nodes w' (path_join folder f) = None"
    proof (intro ballI impI)
      fix f assume f: "f \<in> set (f0 # fs)" and n: "nodes w (path_join folder f) = None"
      with ct have ne: "path_join folder f \<noteq> ?p0" and "f \<in> set fs" by auto
      moreover from ne n have "nodes ?w1 (path_join folder f) = None" by simp
      ultimately show "nodes w' (path_join folder f) = None" using w'(6) by blast
    qed
    moreover have "\<forall>f\<in>set (f0 # fs). \<forall>t. nodes w' (path_join folder f) \<noteq> Some (Dir t)"
    proof -
      have "\<forall>t. nodes w' ?p0 \<noteq> Some (Dir t)"
        using w'(5,7) by (cases "?p0 \<in> path_join folder ` set fs") auto
      then show ?thesis using w'(7) by simp
    qed
    moreover have "distinct (map (path_join folder) (f0 # fs)) \<longrightarrow>
          (\<forall>f\<in>set (f0 # fs). \<forall>c t. nodes w (path_join folder f) = Some (File c t) \<longrightarrow>
             nodes w' (path_join folder f) = Some (File (rewrite_content f c) (clock w)))"
    proof
      assume d: "distinct (map (path_join folder) (f0 # fs))"
      then have notin: "?p0 \<notin> path_join folder ` set fs" and dfs: "distinct (map (path_join folder) fs)"
        by auto
      have head: "nodes w' ?p0 = Some (File (rewrite_content f0 c) (clock w))"
        using w'(5) notin by simp
      have tl: "\<forall>f\<in>set fs. \<forall>c t. nodes w (path_join folder f) = Some (File c t) \<longrightarrow>
             nodes w' (path_join folder f) = Some (File (rewrite_content f c) (clock w))"
      proof (intro ballI allI impI)
        fix f c' t' assume f: "f \<in> set fs" and n: "nodes w (path_join folder f) = Some (File c' t')"
        from f notin have "path_join folder f \<noteq> ?p0" by (metis imageI)
        with n have "nodes ?w1 (path_join folder f) = Some (File c' t')" by simp
        with w'(8) dfs f show "nodes w' (path_join folder f) = Some (File (rewrite_content f c') (clock w))"
          by simp
      qed
      show "\<forall>f\<in>set (f0 # fs). \<forall>c t. nodes w (path_join folder f) = Some (File c t) \<longrightarrow>
             nodes w' (path_join folder f) = Some (File (rewrite_content f c) (clock w))"
        using head tl ct by auto
    qed
    ultimately show ?thesis using w'(2,3,4) by auto
  qed
qed


lemma replace_direct_head: "prefix ''/'' (replace_all findDirect replDirect s) \<Longrightarrow> prefix ''/'' s"
  by (cases s) (auto simp: findDirect_def replDirect_def split: if_splits)

lemma replace_src_head: "prefix ''s'' (replace_all findSrc replSrc s) \<Longrightarrow> prefix ''s'' s"
  by (cases s) (auto simp: findSrc_def replSrc_def split: if_splits)

lemma sublist_Cons_iff: "sublist p (c # t) \<longleftrightarrow> prefix p (c # t) \<or> sublist p t"
  by (metis sublist_Cons_right)

lemma no_direct_left: "\<not> sublist findDirect (replace_all findDirect replDirect s)"
proof (induction findDirect replDirect s rule: replace_all.induct)
  case 1
  then show ?case by (simp add: findDirect_def)
next
  case (2 c cs)
  show ?case
  proof (cases "findDirect \<noteq> [] \<and> prefix findDirect (c # cs)")
    case True
    let ?t = "replace_all findDirect replDirect (drop (length findDirect) (c # cs))"
    have "\<not> sublist findDirect ?t" using "2.hyps"(1) [OF True] .
    then have "\<not> sublist findDirect (replDirect @ ?t)"
      by (simp add: findDirect_def replDirect_def sublist_Cons_iff)
    then show ?thesis using True by simp
  next
    case False
    let ?t = "replace_all findDirect replDirect cs"
    have nt: "\<not> sublist findDirect ?t" using "2.hyps"(2) [OF False] .
    have "\<not> prefix findDirect (c # ?t)"
    proof
      assume "prefix findDirect (c # ?t)"
      then have c: "c = CHR 0x22" and "prefix ''/'' ?t" by (auto simp: findDirect_def)
      then have "prefix ''/'' cs" using replace_direct_head by blast
      with c have "prefix findDirect (c # cs)" by (auto simp: findDirect_def)
      with False show False by (simp add: findDirect_def)
    qed
    with nt have "\<not> sublist findDirect (c # ?t)" by (simp add: sublist_Cons_iff)
    moreover have "replace_all findDirect replDirect (c # cs) = c # ?t" using False by auto
    ultimately show ?thesis by simp
  qed
qed


lemma replace_src_prefix:
  "prefix x (replace_all findSrc replSrc s) \<Longrightarrow> CHR ''s'' \<notin> set x \<Longrightarrow> prefix x s"
proof (induction x arbitrary: s)
  case Nil
  then show ?case by simp
next
  case (Cons a x)
  show ?case
  proof (cases s)
    case Nil
    with Cons.prems show ?thesis by simp
  next
    case (Cons d ds)
    show ?thesis
    proof (cases "prefix findSrc (d # ds)")
      case True
      then have "replace_all findSrc replSrc s = replSrc @ replace_all findSrc replSrc (drop (length findSrc) s)"
        using Cons by (simp add: findSrc_def)
      with Cons.prems show ?thesis by (simp add: replSrc_def)
    next
      case False
      then have "replace_all findSrc replSrc s = d # replace_all findSrc replSrc ds"
        using Cons by simp
      with Cons.prems Cons.IH [of ds] Cons show ?thesis by simp
    qed
  qed
qed

lemma no_src_left: "\<not> sublist findSrc (replace_all findSrc replSrc s)"
proof (induction findSrc replSrc s rule: replace_all.induct)
  case 1
  then show ?case by (simp add: findSrc_def)
next
  case (2 c cs)
  show ?case
  proof (cases "findSrc \<noteq> [] \<and> prefix findSrc (c # cs)")
    case True
    let ?t = "replace_all findSrc replSrc (drop (length findSrc) (c # cs))"
    have "\<not> sublist findSrc ?t" using "2.hyps"(1) [OF True] .
    then have "\<not> sublist findSrc (replSrc @ ?t)"
      by (simp add: findSrc_def replSrc_def sublist_Cons_iff)
    then show ?thesis using True by simp
  next
    case False
    let ?t = "replace_all findSrc replSrc cs"
    have nt: "\<not> sublist findSrc ?t" using "2.hyps"(2) [OF False] .
    have "\<not> prefix findSrc (c # ?t)"
    proof
      assume "prefix findSrc (c # ?t)"
      then have c: "c = CHR ''s''" and "prefix (tl findSrc) ?t" by (auto simp: findSrc_def)
      moreover have "CHR ''s'' \<notin> set (tl findSrc)" by (simp add: findSrc_def)
      ultimately have "prefix (tl findSrc) cs" using replace_src_prefix by blast
      with c have "prefix findSrc (c # cs)" by (auto simp: findSrc_def)
      with False show False by (simp add: findSrc_def)
    qed
    with nt have "\<not> sublist findSrc (c # ?t)" by (simp add: sublist_Cons_iff)
    moreover have "replace_all findSrc replSrc (c # cs) = c # ?t" using False by auto
    ultimately show ?thesis by simp
  qed
qed

text \<open>
  Claim C7. \<open>replaceRootPaths\<close> rewrites each listed file in place: in a file whose
  name ends in \<open>.html\<close> or \<open>.xml\<close> every occurrence of \<open>src="/\<close> becomes \<open>src="../\<close>,
  in any other listed file every occurrence of the two characters \<open>"/\<close> becomes \<open>"../\<close>.
  "Every occurrence" is stated three ways: the rewritten text holds no occurrence any
  more, the rewriting splits at any occurrence into the rewritten prefix, the
  replacement and the rewritten rest, and a text without an occurrence stays as it is.
  A listed file that does not exist is skipped without a message and is not created; a
  path that no listed name joins to keeps its node. The listed names join to distinct
  paths, none of them a directory (reading a directory throws).
\<close>

theorem replaceRootPaths_rewrites:
  assumes "\<forall>f\<in>set names. \<forall>t. nodes w (path_join folder f) \<noteq> Some (Dir t)"
    and "distinct (map (path_join folder) names)"
  shows "\<exists>w'. replaceRootPaths folder names w = Inr ((), w') \<and> log w' = log w
      \<and> (\<forall>f\<in>set names. \<forall>c t. nodes w (path_join folder f) = Some (File c t) \<longrightarrow>
            (\<exists>c'. nodes w' (path_join folder f) = Some (File c' (clock w))
               \<and> c' = (if endsWith f ''.html'' \<or> endsWith f ''.xml''
                        then replace_all findSrc replSrc c else replace_all findDirect replDirect c)
               \<and> (if endsWith f ''.html'' \<or> endsWith f ''.xml''
                        then \<not> sublist findSrc c' else \<not> sublist findDirect c')))
      \<and> (\<forall>f\<in>set names. nodes w (path_join folder f) = None \<longrightarrow> nodes w' (path_join folder f) = None)
      \<and> (\<forall>p. p \<notin> path_join folder ` set names \<longrightarrow> nodes w' p = nodes w p)
      \<and> (\<forall>pre post. replace_all findSrc replSrc (pre @ findSrc @ post)
            = replace_all findSrc replSrc pre @ replSrc @ replace_all findSrc replSrc post)
      \<and> (\<forall>pre post. replace_all findDirect replDirect (pre @ findDirect @ post)
            = replace_all findDirect replDirect pre @ replDirect @ replace_all findDirect replDirect post)
      \<and> (\<forall>s. \<not> sublist findSrc s \<longrightarrow> replace_all findSrc replSrc s = s)
      \<and> (\<forall>s. \<not> sublist findDirect s \<longrightarrow> replace_all findDirect replDirect s = s)"
proof -
  from replaceRootPaths_spec [OF assms(1)] obtain w' where w':
    "replaceRootPaths folder names w = Inr ((), w')" "log w' = log w"
    "\<forall>p. p \<notin> path_join folder ` set names \<longrightarrow> nodes w' p = nodes w p"
    "\<forall>f\<in>set names. nodes w (path_join folder f) = None \<longrightarrow> nodes w' (path_join folder f) = None"
    "distinct (map (path_join folder) names) \<longrightarrow>
          (\<forall>f\<in>set names. \<forall>c t. nodes w (path_join folder f) = Some (File c t) \<longrightarrow>
             nodes w' (path_join folder f) = Some (File (rewrite_content f c) (clock w)))"
    by blast
  have "\<forall>f\<in>set names. \<forall>c t. nodes w (path_join folder f) = Some (File c t) \<longrightarrow>
            (\<exists>c'. nodes w' (path_join folder f) = Some (File c' (clock w))
               \<and> c' = (if endsWith f ''.html'' \<or> endsWith f ''.xml''
                        then replace_all findSrc replSrc c else replace_all findDirect replDirect c)
               \<and> (if endsWith f ''.html'' \<or> endsWith f ''.xml''
                        then \<not> sublist findSrc c' else \<not> sublist findDirect c'))"
    using w'(5) assms(2) by (simp add: rewrite_content_def is_markup_def no_src_left no_direct_left)
  moreover have "\<forall>s. \<not> sublist findSrc s \<longrightarrow> replace_all findSrc replSrc s = s"
    by (simp add: replace_all_absent sublist_def)
  moreover have "\<forall>s. \<not> sublist findDirect s \<longrightarrow> replace_all findDirect replDirect s = s"
    by (simp add: replace_all_absent sublist_def)
  ultimately show ?thesis
    using w'(1,2,3,4) findSrc_split findDirect_split by blast
qed

lemma rewritten_paths:
  "path_join ''public/pwa'' ''manifest.json'' = ''public/pwa/manifest.json''"
  "path_join ''public/pwa'' ''yandex-browser-manifest.json'' = ''public/pwa/yandex-browser-manifest.json''"
  "path_join ''public/pwa'' ''manifest.webapp'' = ''public/pwa/manifest.webapp''"
  "path_join ''public/pwa'' ''browserconfig.xml'' = ''public/pwa/browserconfig.xml''"
  by (simp_all add: path_join_def normalize_def)

theorem replaceRootPaths_rewrites_witness:
  \<open>\<exists>w'. replaceRootPaths ''public/pwa'' rewritten_files rewrite_demo = Inr ((), w') \<and> log w' = []
     \<and> nodes w' ''public/pwa/manifest.json'' = Some (File ''{"src":"../pwa/icon.png"}'' 9)
     \<and> nodes w' ''public/pwa/browserconfig.xml'' = Some (File ''<logo src="../pwa/m.png"/><a href="/x"/>'' 9)
     \<and> nodes w' ''public/pwa/manifest.webapp'' = None
     \<and> nodes w' ''public/index.html'' = Some (File ''<img src="/a.png">'' 5)\<close>
proof -
  have h1: "\<forall>f\<in>set rewritten_files. \<forall>t. nodes rewrite_demo (path_join ''public/pwa'' f) \<noteq> Some (Dir t)"
    by (simp add: rewritten_files_def rewritten_paths rewrite_demo_def)
  have h2: "distinct (map (path_join ''public/pwa'') rewritten_files)"
    by (simp add: rewritten_files_def rewritten_paths)
  from replaceRootPaths_rewrites [OF h1 h2] obtain w' where
    w1: "replaceRootPaths ''public/pwa'' rewritten_files rewrite_demo = Inr ((), w')"
    and w2: "log w' = log rewrite_demo"
    and w3: "\<forall>f\<in>set rewritten_files. \<forall>c t. nodes rewrite_demo (path_join ''public/pwa'' f) = Some (File c t) \<longrightarrow>
            (\<exists>c'. nodes w' (path_join ''public/pwa'' f) = Some (File c' (clock rewrite_demo))
               \<and> c' = (if endsWith f ''.html'' \<or> endsWith f ''.xml''
                        then replace_all findSrc replSrc c else replace_all findDirect replDirect c)
               \<and> (if endsWith f ''.html'' \<or> endsWith f ''.xml''
                        then \<not> sublist findSrc c' else \<not> sublist findDirect c'))"
    and w4: "\<forall>f\<in>set rewritten_files. nodes rewrite_demo (path_join ''public/pwa'' f) = None \<longrightarrow>
         nodes w' (path_join ''public/pwa'' f) = None"
    and w5: "\<forall>p. p \<notin> path_join ''public/pwa'' ` set rewritten_files \<longrightarrow> nodes w' p = nodes rewrite_demo p"
    by (elim exE conjE) (rule that)
  have ends: "\<not> endsWith ''manifest.json'' ''.html''" "\<not> endsWith ''manifest.json'' ''.xml''"
    "endsWith ''browserconfig.xml'' ''.xml''"
    by (simp_all add: endsWith_def suffix_to_prefix)
  have m1: "''manifest.json'' \<in> set rewritten_files" and m2: "''browserconfig.xml'' \<in> set rewritten_files"
    and m3: "''manifest.webapp'' \<in> set rewritten_files"
    by (simp_all add: rewritten_files_def)
  have n1: \<open>nodes rewrite_demo (path_join ''public/pwa'' ''manifest.json'') = Some (File ''{"src":"/pwa/icon.png"}'' 5)\<close>
    by (simp add: rewritten_paths rewrite_demo_def)
  have n2: \<open>nodes rewrite_demo (path_join ''public/pwa'' ''browserconfig.xml'')
      = Some (File ''<logo src="/pwa/m.png"/><a href="/x"/>'' 5)\<close>
    by (simp add: rewritten_paths rewrite_demo_def)
  have n3: "nodes rewrite_demo (path_join ''public/pwa'' ''manifest.webapp'') = None"
    by (simp add: rewritten_paths rewrite_demo_def)
  have n4: "''public/index.html'' \<notin> path_join ''public/pwa'' ` set rewritten_files"
    by (simp add: rewritten_files_def rewritten_paths)
  have r1: \<open>replace_all findDirect replDirect ''{"src":"/pwa/icon.png"}'' = ''{"src":"../pwa/icon.png"}''\<close>
    by (simp add: findDirect_def replDirect_def)
  have r2: \<open>replace_all findSrc replSrc ''<logo src="/pwa/m.png"/><a href="/x"/>''
      = ''<logo src="../pwa/m.png"/><a href="/x"/>''\<close>
    by (simp add: findSrc_def replSrc_def)
  have c9: "clock rewrite_demo = 9" by (simp add: rewrite_demo_def)
  from w3 [rule_format, OF m1 n1] obtain c1 where
    c1: "nodes w' (path_join ''public/pwa'' ''manifest.json'') = Some (File c1 (clock rewrite_demo))"
    and c1': \<open>c1 = (if endsWith ''manifest.json'' ''.html'' \<or> endsWith ''manifest.json'' ''.xml''
                        then replace_all findSrc replSrc ''{"src":"/pwa/icon.png"}''
                        else replace_all findDirect replDirect ''{"src":"/pwa/icon.png"}'')\<close>
    by (elim exE conjE)
  have a: \<open>nodes w' ''public/pwa/manifest.json'' = Some (File ''{"src":"../pwa/icon.png"}'' 9)\<close>
    using c1 c1' ends r1 c9 by (simp add: rewritten_paths)
  from w3 [rule_format, OF m2 n2] obtain c2 where
    c2: "nodes w' (path_join ''public/pwa'' ''browserconfig.xml'') = Some (File c2 (clock rewrite_demo))"
    and c2': \<open>c2 = (if endsWith ''browserconfig.xml'' ''.html'' \<or> endsWith ''browserconfig.xml'' ''.xml''
                        then replace_all findSrc replSrc ''<logo src="/pwa/m.png"/><a href="/x"/>''
                        else replace_all findDirect replDirect ''<logo src="/pwa/m.png"/><a href="/x"/>'')\<close>
    by (elim exE conjE)
  have b: \<open>nodes w' ''public/pwa/browserconfig.xml'' = Some (File ''<logo src="../pwa/m.png"/><a href="/x"/>'' 9)\<close>
    using c2 c2' ends r2 c9 by (simp add: rewritten_paths)
  have c: "nodes w' ''public/pwa/manifest.webapp'' = None"
    using w4 [rule_format, OF m3 n3] by (simp add: rewritten_paths)
  have d: \<open>nodes w' ''public/index.html'' = Some (File ''<img src="/a.png">'' 5)\<close>
    using w5 [rule_format, OF n4] by (simp add: rewrite_demo_def)
  have "log w' = []" using w2 by (simp add: rewrite_demo_def)
  with w1 a b c d show ?thesis by blast
qed

section \<open>Path Rewriter: the manifest's scope and start_url\<close>

lemma not_markup_manifest: "\<not> is_markup ''manifest.json''"
  by (simp add: is_markup_def endsWith_def suffix_to_prefix)

lemma replace_direct_quote:
  assumes "\<not> prefix ''/'' post"
  shows \<open>replace_all findDirect replDirect (''"'' @ post) = ''"'' @ replace_all findDirect replDirect post\<close>
proof (cases post)
  case Nil
  then show ?thesis by (simp add: findDirect_def)
next
  case (Cons d ds)
  with assms have "d \<noteq> CHR ''/''" by simp
  with Cons show ?thesis by (simp add: findDirect_def)
qed

lemma replace_direct_after:
  assumes "\<not> prefix ''/'' b"
  shows "replace_all findDirect replDirect (a @ b)
       = replace_all findDirect replDirect a @ replace_all findDirect replDirect b"
proof (rule replace_all_append)
  fix k :: nat assume "0 < k" "k < length findDirect"
  then have "k = 1" by (simp add: findDirect_def)
  with assms show "\<not> (suffix (take k findDirect) a \<and> prefix (drop k findDirect) b)"
    by (simp add: findDirect_def)
qed

lemma json_member_root:
  assumes k: "k \<in> {''scope'', ''start_url''}" and sep: "sep \<in> {'':'', '': ''}"
    and post: "\<not> prefix ''/'' post"
  shows "replace_all findDirect replDirect (pre @ json_member k sep ''/'' @ post)
       = replace_all findDirect replDirect pre @ json_member k sep ''../''
           @ replace_all findDirect replDirect post"
proof -
  let ?R = "replace_all findDirect replDirect"
  define A where \<open>A = ''"'' @ k @ ''"'' @ sep\<close>
  have m1: \<open>json_member k sep ''/'' = A @ findDirect @ ''"''\<close>
    by (simp add: json_member_def A_def findDirect_def)
  have m2: \<open>json_member k sep ''../'' = A @ replDirect @ ''"''\<close>
    by (simp add: json_member_def A_def replDirect_def)
  have A1: "\<not> prefix ''/'' A" by (simp add: A_def)
  have A2: "?R A = A"
    using k sep by (auto simp: A_def findDirect_def)
  have "?R (pre @ json_member k sep ''/'' @ post) = ?R ((pre @ A) @ findDirect @ (''\"'' @ post))"
    by (simp add: m1)
  also have "\<dots> = ?R (pre @ A) @ replDirect @ ?R (''\"'' @ post)"
    by (rule findDirect_split)
  also have "?R (pre @ A) = ?R pre @ A"
    using replace_direct_after [OF A1, of pre] A2 by simp
  also have "?R (''\"'' @ post) = ''\"'' @ ?R post"
    using replace_direct_quote [OF post] by simp
  finally show ?thesis by (simp add: m2)
qed

lemma json_member_root_gone:
  "\<not> sublist (json_member k sep ''/'') (replace_all findDirect replDirect c)"
proof
  assume h: "sublist (json_member k sep ''/'') (replace_all findDirect replDirect c)"
  have \<open>json_member k sep ''/'' = (''"'' @ k @ ''"'' @ sep) @ findDirect @ ''"''\<close>
    by (simp add: json_member_def findDirect_def)
  then have "sublist findDirect (json_member k sep ''/'')"
    unfolding sublist_def by blast
  from this h have "sublist findDirect (replace_all findDirect replDirect c)"
    by (rule sublist_order.order.trans)
  with no_direct_left show False by blast
qed

lemma rewritten_manifest_members:
  assumes "nodes w (path_join faviconFolder ''manifest.json'') = Some (File c t)"
    and "\<forall>f\<in>set rewritten_files. \<forall>t. nodes w (path_join faviconFolder f) \<noteq> Some (Dir t)"
    and "distinct (map (path_join faviconFolder) rewritten_files)"
  shows "\<exists>w' c'. replaceRootPaths faviconFolder rewritten_files w = Inr ((), w')
      \<and> nodes w' (path_join faviconFolder ''manifest.json'') = Some (File c' (clock w))
      \<and> (\<forall>k\<in>{''scope'', ''start_url''}. \<forall>sep\<in>{'':'', '': ''}.
            (\<forall>pre post. c = pre @ json_member k sep ''/'' @ post \<and> \<not> prefix ''/'' post \<longrightarrow>
               c' = replace_all findDirect replDirect pre @ json_member k sep ''../''
                      @ replace_all findDirect replDirect post)
            \<and> \<not> sublist (json_member k sep ''/'') c')"
proof -
  from replaceRootPaths_spec [OF assms(2)] obtain w' where
    w1: "replaceRootPaths faviconFolder rewritten_files w = Inr ((), w')"
    and w2: "distinct (map (path_join faviconFolder) rewritten_files) \<longrightarrow>
          (\<forall>f\<in>set rewritten_files. \<forall>c t. nodes w (path_join faviconFolder f) = Some (File c t) \<longrightarrow>
             nodes w' (path_join faviconFolder f) = Some (File (rewrite_content f c) (clock w)))"
    by (elim exE conjE) (rule that)
  have "''manifest.json'' \<in> set rewritten_files" by (simp add: rewritten_files_def)
  with w2 assms(1,3) have
    "nodes w' (path_join faviconFolder ''manifest.json'') = Some (File (rewrite_content ''manifest.json'' c) (clock w))"
    by blast
  then have n: "nodes w' (path_join faviconFolder ''manifest.json'')
      = Some (File (replace_all findDirect replDirect c) (clock w))"
    by (simp add: rewrite_content_def not_markup_manifest)
  have "\<forall>k\<in>{''scope'', ''start_url''}. \<forall>sep\<in>{'':'', '': ''}.
            (\<forall>pre post. c = pre @ json_member k sep ''/'' @ post \<and> \<not> prefix ''/'' post \<longrightarrow>
               replace_all findDirect replDirect c = replace_all findDirect replDirect pre @ json_member k sep ''../''
                      @ replace_all findDirect replDirect post)
            \<and> \<not> sublist (json_member k sep ''/'') (replace_all findDirect replDirect c)"
    using json_member_root json_member_root_gone by blast
  with w1 n show ?thesis by blast
qed

section \<open>Favicon Orchestrator: the callback's writes\<close>

lemma write_all_append:
  "write_all ef (xs @ ys) w =
     (case write_all ef xs w of (Some e, w1) \<Rightarrow> (Some e, w1) | (None, w1) \<Rightarrow> write_all ef ys w1)"
  by (induction xs arbitrary: w) (auto split: sum.splits)

lemma write_all_keeps:
  "write_all ef xs w = (r, w') \<Longrightarrow> clock w' = clock w \<and> log w' = log w \<and> fav_calls w' = fav_calls w"
proof (induction xs arbitrary: w)
  case Nil
  then show ?case by simp
next
  case (Cons x xs)
  obtain n c where x: "x = (n, c)" by (cases x)
  show ?case
  proof (cases "writeFileSync (ef @ ''/'' @ n) c w")
    case (Inl e)
    with Cons.prems x show ?thesis by simp
  next
    case (Inr w1)
    then have "clock w1 = clock w \<and> log w1 = log w \<and> fav_calls w1 = fav_calls w"
      by (auto dest: writeFileSync_written)
    moreover from Cons.prems x Inr have "write_all ef xs w1 = (r, w')" by simp
    ultimately show ?thesis using Cons.IH by metis
  qed
qed

lemma write_all_frame:
  "write_all ef xs w = (r, w') \<Longrightarrow> \<not> prefix (ef @ ''/'') p \<Longrightarrow> nodes w' p = nodes w p"
proof (induction xs arbitrary: w)
  case Nil
  then show ?case by simp
next
  case (Cons x xs)
  obtain n c where x: "x = (n, c)" by (cases x)
  show ?case
  proof (cases "writeFileSync (ef @ ''/'' @ n) c w")
    case (Inl e)
    with Cons.prems x show ?thesis by simp
  next
    case (Inr w1)
    from Cons.prems(2) have "p \<noteq> ef @ ''/'' @ n" by (auto simp: prefix_def)
    with Inr have "nodes w1 p = nodes w p"
      by (auto dest: writeFileSync_written)
    moreover from Cons.prems x Inr have "write_all ef xs w1 = (r, w')" by simp
    ultimately show ?thesis using Cons.IH Cons.prems(2) by metis
  qed
qed

lemma write_all_succeeds:
  assumes "list_all (\<lambda>(name, contents). writable w (ef @ ''/'' @ name)) xs"
  shows "\<exists>w'. write_all ef xs w = (None, w')
      \<and> (\<forall>p. nodes w' p =
            (case map_of (rev (map (\<lambda>(name, contents). (ef @ ''/'' @ name, contents)) xs)) p of
               Some c \<Rightarrow> Some (File c (clock w)) | None \<Rightarrow> nodes w p))"
  using assms
proof (induction xs arbitrary: w)
  case Nil
  then show ?case by simp
next
  case (Cons x xs)
  obtain n c where x: "x = (n, c)" by (cases x)
  let ?p = "ef @ ''/'' @ n"
  let ?w1 = "w\<lparr>nodes := (nodes w)(?p \<mapsto> File c (clock w))\<rparr>"
  from Cons.prems x have nd: "writable w ?p" by simp
  then have wr: "writeFileSync ?p c w = Inr ?w1"
    by (rule writeFileSync_writable)
  have "list_all (\<lambda>(name, contents). writable ?w1 (ef @ ''/'' @ name)) xs"
    using Cons.prems nd by (auto simp: list_all_iff intro: writable_written)
  from Cons.IH [OF this] obtain w' where w': "write_all ef xs ?w1 = (None, w')"
    "\<forall>p. nodes w' p =
            (case map_of (rev (map (\<lambda>(name, contents). (ef @ ''/'' @ name, contents)) xs)) p of
               Some c \<Rightarrow> Some (File c (clock ?w1)) | None \<Rightarrow> nodes ?w1 p)"
    by blast
  have "write_all ef (x # xs) w = (None, w')" using x wr w'(1) by simp
  moreover have "\<forall>p. nodes w' p =
            (case map_of (rev (map (\<lambda>(name, contents). (ef @ ''/'' @ name, contents)) (x # xs))) p of
               Some c \<Rightarrow> Some (File c (clock w)) | None \<Rightarrow> nodes w p)"
    using w'(2) x by (auto simp: map_add_def split: option.splits)
  ultimately show ?case by blast
qed

lemma map_of_written:
  assumes "distinct (map fst xs)" "(n, c) \<in> set xs"
  shows "map_of (rev (map (\<lambda>(name, contents). (ef @ ''/'' @ name, contents)) xs)) (ef @ ''/'' @ n) = Some c"
proof -
  let ?ys = "map (\<lambda>(name, contents). (ef @ ''/'' @ name, contents)) xs"
  have "map fst ?ys = map (\<lambda>name. ef @ ''/'' @ name) (map fst xs)"
    by (induction xs) auto
  then have "distinct (map fst ?ys)"
    using assms(1) by (simp add: distinct_map inj_on_def)
  then have "distinct (map fst (rev ?ys))" by (simp add: rev_map [symmetric])
  moreover have "(ef @ ''/'' @ n, c) \<in> set (rev ?ys)" using assms(2) by force
  ultimately show ?thesis by (rule map_of_is_SomeI)
qed

section \<open>Favicon Orchestrator: the timer and the retry\<close>

lemma run_simps [simp]:
  "run ef s [] = s"
  "run ef s (e # es) = run ef (step ef s e) es"
  by (simp_all add: run_def)

lemma resolver_fields [simp]:
  "timer (promise_resolve r s) = timer s"
  "first_pending (promise_resolve r s) = first_pending s"
  "retry_pending (promise_resolve r s) = retry_pending s"
  "deadline (promise_resolve r s) = deadline s"
  "fav_calls (wd (promise_resolve r s)) = fav_calls (wd s)"
  "clock (wd (promise_resolve r s)) = clock (wd s)"
  "nodes (wd (promise_resolve r s)) = nodes (wd s)"
  "\<not> timer s \<Longrightarrow> scheduled (promise_resolve r s) = scheduled s"
  "timer (promise_reject e s) = timer s"
  "first_pending (promise_reject e s) = first_pending s"
  "retry_pending (promise_reject e s) = retry_pending s"
  "deadline (promise_reject e s) = deadline s"
  "wd (promise_reject e s) = wd s"
  "scheduled (promise_reject e s) = scheduled s"
  by (simp_all add: promise_resolve_def promise_reject_def emit_def)

lemma guarded_fields [simp]:
  "timer (guarded_resolve r s) = timer s"
  "first_pending (guarded_resolve r s) = first_pending s"
  "retry_pending (guarded_resolve r s) = retry_pending s"
  "deadline (guarded_resolve r s) = deadline s"
  "fav_calls (wd (guarded_resolve r s)) = fav_calls (wd s)"
  "clock (wd (guarded_resolve r s)) = clock (wd s)"
  "nodes (wd (guarded_resolve r s)) = nodes (wd s)"
  "\<not> timer s \<Longrightarrow> guarded_resolve r s = s"
  "timer (guarded_reject e s) = timer s"
  "first_pending (guarded_reject e s) = first_pending s"
  "retry_pending (guarded_reject e s) = retry_pending s"
  "deadline (guarded_reject e s) = deadline s"
  "wd (guarded_reject e s) = wd s"
  "scheduled (guarded_reject e s) = scheduled s"
  by (simp_all add: guarded_resolve_def guarded_reject_def)

lemma callback_failed [simp]:
  "generateFav_callback ef resolve reject (Failed e) s = reject (FaviconError e) s"
  by (simp add: generateFav_callback_def)

lemma callback_produced:
  "\<exists>w' ok. (\<forall>resolve reject. generateFav_callback ef resolve reject (Produced r) s
                = (if ok then resolve (html r) (s\<lparr>wd := w'\<rparr>) else s\<lparr>wd := w'\<rparr>))
      \<and> clock w' = clock (wd s) \<and> log w' = log (wd s) \<and> fav_calls w' = fav_calls (wd s)
      \<and> (\<forall>p. \<not> prefix (ef @ ''/'') p \<longrightarrow> nodes w' p = nodes (wd s) p)"
proof -
  obtain r1 w1 where a: "write_all ef (images r) (wd s) = (r1, w1)" by (cases "write_all ef (images r) (wd s)")
  obtain r2 w2 where b: "write_all ef (files r) w1 = (r2, w2)" by (cases "write_all ef (files r) w1")
  note ka = write_all_keeps [OF a] and kb = write_all_keeps [OF b]
  have fa: "\<forall>p. \<not> prefix (ef @ ''/'') p \<longrightarrow> nodes w1 p = nodes (wd s) p"
    using write_all_frame [OF a] by blast
  have fb: "\<forall>p. \<not> prefix (ef @ ''/'') p \<longrightarrow> nodes w2 p = nodes w1 p"
    using write_all_frame [OF b] by blast
  show ?thesis
  proof (cases r1)
    case (Some e)
    have "\<forall>resolve reject. generateFav_callback ef resolve reject (Produced r) s
                = (if False then resolve (html r) (s\<lparr>wd := w1\<rparr>) else s\<lparr>wd := w1\<rparr>)"
      using a Some by (simp add: generateFav_callback_def)
    with ka fa show ?thesis by blast
  next
    case None
    have "\<forall>resolve reject. generateFav_callback ef resolve reject (Produced r) s
                = (if r2 = None then resolve (html r) (s\<lparr>wd := w2\<rparr>) else s\<lparr>wd := w2\<rparr>)"
      using a b None by (auto simp: generateFav_callback_def)
    moreover have "clock w2 = clock (wd s) \<and> log w2 = log (wd s) \<and> fav_calls w2 = fav_calls (wd s)"
      using ka kb by simp
    moreover have "\<forall>p. \<not> prefix (ef @ ''/'') p \<longrightarrow> nodes w2 p = nodes (wd s) p"
      using fa fb by simp
    ultimately show ?thesis by blast
  qed
qed

lemma callback_fields:
  assumes "resolve = guarded_resolve \<or> resolve = promise_resolve"
    and "reject = guarded_reject \<or> reject = promise_reject"
  shows "timer (generateFav_callback ef resolve reject res s) = timer s
    \<and> first_pending (generateFav_callback ef resolve reject res s) = first_pending s
    \<and> retry_pending (generateFav_callback ef resolve reject res s) = retry_pending s
    \<and> deadline (generateFav_callback ef resolve reject res s) = deadline s
    \<and> fav_calls (wd (generateFav_callback ef resolve reject res s)) = fav_calls (wd s)
    \<and> clock (wd (generateFav_callback ef resolve reject res s)) = clock (wd s)
    \<and> (\<not> timer s \<longrightarrow> scheduled (generateFav_callback ef resolve reject res s) = scheduled s)"
proof (cases res)
  case (Failed e)
  with assms show ?thesis by auto
next
  case (Produced r)
  from callback_produced [of ef r s] obtain w' ok where
    eq: "\<And>resolve reject. generateFav_callback ef resolve reject (Produced r) s
                = (if ok then resolve (html r) (s\<lparr>wd := w'\<rparr>) else s\<lparr>wd := w'\<rparr>)"
    and k: "clock w' = clock (wd s)" "fav_calls w' = fav_calls (wd s)"
    by blast
  show ?thesis using assms k by (auto simp: eq Produced)
qed

lemma guarded_callback_ignored:
  "\<not> timer s \<Longrightarrow> promise (generateFav_callback ef guarded_resolve guarded_reject res s) = promise s"
  by (auto simp: generateFav_callback_def guarded_resolve_def guarded_reject_def
      split: fav_result.splits prod.splits option.splits)

lemma step_fired:
  assumes "\<not> timer s" "\<not> scheduled s"
  shows "\<not> timer (step ef s e)" and "\<not> scheduled (step ef s e)"
    and "fav_calls (wd (step ef s e)) = fav_calls (wd s)"
  using assms by (cases e; simp add: callback_fields)+

lemma run_fired:
  assumes "\<not> timer s" "\<not> scheduled s"
  shows "\<not> timer (run ef s evs) \<and> \<not> scheduled (run ef s evs)
       \<and> fav_calls (wd (run ef s evs)) = fav_calls (wd s)"
  using assms
proof (induction evs arbitrary: s)
  case Nil
  then show ?case by simp
next
  case (Cons e es)
  from step_fired [OF Cons.prems] Cons.IH [of "step ef s e"] show ?case by simp
qed

lemma late_first_ignored:
  "\<not> timer s \<Longrightarrow> promise (step ef s (FirstDone res)) = promise s"
  by (simp add: guarded_callback_ignored)

lemma retry_callback_promise:
  "promise (generateFav_callback ef promise_resolve promise_reject res s) = promise s
   \<or> promise (generateFav_callback ef promise_resolve promise_reject res s) = settles_as res"
  by (auto simp: generateFav_callback_def promise_resolve_def promise_reject_def settles_as_def
      split: fav_result.splits prod.splits option.splits)

lemma step_promise_fired:
  assumes "\<not> timer s"
  shows "promise (step ef s e) = promise s
       \<or> (\<exists>res. e = RetryDone res \<and> promise (step ef s e) = settles_as res)"
proof (cases e)
  case (FirstDone res)
  with assms show ?thesis by (simp add: guarded_callback_ignored)
next
  case TimerFires
  then show ?thesis by (simp add: on_timeout_def)
next
  case (RetryDone res)
  then show ?thesis
    using retry_callback_promise [of ef res "s\<lparr>retry_pending := False\<rparr>"] by auto
qed

lemma run_promise_fired:
  assumes "\<not> timer s" "\<not> scheduled s"
  shows "promise (run ef s evs) = promise s
       \<or> (\<exists>res. RetryDone res \<in> set evs \<and> promise (run ef s evs) = settles_as res)"
  using assms
proof (induction evs arbitrary: s)
  case Nil
  then show ?case by simp
next
  case (Cons e es)
  have f: "\<not> timer (step ef s e)" "\<not> scheduled (step ef s e)"
    using step_fired [OF Cons.prems] by simp_all
  from Cons.IH [OF f] step_promise_fired [OF Cons.prems(1), of ef e]
  show ?case by auto
qed

lemma step_awaiting_retry:
  assumes "\<not> timer s" "retry_pending s" "promise s = Pending" "\<forall>res. e \<noteq> RetryDone res"
  shows "retry_pending (step ef s e) \<and> promise (step ef s e) = Pending"
proof (cases e)
  case (FirstDone res)
  with assms show ?thesis by (simp add: guarded_callback_ignored callback_fields)
next
  case TimerFires
  with assms show ?thesis by (simp add: on_timeout_def)
next
  case (RetryDone res)
  with assms show ?thesis by simp
qed

lemma run_awaiting_retry:
  assumes "\<not> timer s" "\<not> scheduled s" "retry_pending s" "promise s = Pending"
    and "\<forall>res. RetryDone res \<notin> set evs"
  shows "retry_pending (run ef s evs) \<and> promise (run ef s evs) = Pending"
  using assms
proof (induction evs arbitrary: s)
  case Nil
  then show ?case by simp
next
  case (Cons e es)
  have e: "\<forall>res. e \<noteq> RetryDone res" and es: "\<forall>res. RetryDone res \<notin> set es"
    using Cons.prems(5) by auto
  have f: "\<not> timer (step ef s e)" "\<not> scheduled (step ef s e)"
    using step_fired [OF Cons.prems(1,2)] by simp_all
  from step_awaiting_retry [OF Cons.prems(1,3,4) e, of ef]
  have "retry_pending (step ef s e)" "promise (step ef s e) = Pending" by simp_all
  from Cons.IH [OF f this es] show ?case by simp
qed

lemma retry_settles:
  assumes "retry_pending s" "promise s = Pending"
  shows "promise (step ef s (RetryDone (Failed e))) = Rejected (FaviconError e)"
    and "writes_ok ef r (wd s) \<Longrightarrow> promise (step ef s (RetryDone (Produced r))) = Fulfilled (html r)"
proof -
  show "promise (step ef s (RetryDone (Failed e))) = Rejected (FaviconError e)"
    using assms by (simp add: generateFav_callback_def promise_reject_def)
next
  assume ok: "writes_ok ef r (wd s)"
  then have i: "list_all (\<lambda>(name, contents). writable (wd s) (ef @ ''/'' @ name)) (images r @ files r)"
    by (simp add: writes_ok_def)
  from write_all_succeeds [OF i] obtain w' where w': "write_all ef (images r @ files r) (wd s) = (None, w')"
    by blast
  then obtain w1 where w1: "write_all ef (images r) (wd s) = (None, w1)" "write_all ef (files r) w1 = (None, w')"
    by (auto simp: write_all_append split: prod.splits option.splits)
  then show "promise (step ef s (RetryDone (Produced r))) = Fulfilled (html r)"
    using assms by (simp add: generateFav_callback_def promise_resolve_def)
qed

lemma timeout_state:
  "timer (on_timeout (generateFavicons_start w)) = False"
  "scheduled (on_timeout (generateFavicons_start w)) = False"
  "retry_pending (on_timeout (generateFavicons_start w)) = True"
  "first_pending (on_timeout (generateFavicons_start w)) = True"
  "promise (on_timeout (generateFavicons_start w)) = Pending"
  "fav_calls (wd (on_timeout (generateFavicons_start w))) = fav_calls w + 2"
  "step ef (generateFavicons_start w) TimerFires = on_timeout (generateFavicons_start w)"
  by (simp_all add: on_timeout_def generateFavicons_start_def invoke_favicons_def emit_def)

text \<open>
  Claim C3. The timer fires while the first attempt is still under way: the timeout
  callback starts one retry, so that the capability has been invoked twice. Whatever
  events follow, in any order, it is never invoked a third time and no timeout is ever
  scheduled again (the retry runs without one); a completion of the first attempt,
  with an error or a response, leaves the promise as it is; the promise, once settled,
  holds the result of a completion of the retry; and as long as the retry has not
  completed the promise is pending, and the retry's completion settles it: an error
  rejects it, a response whose files can be written fulfils it with that response's
  HTML.
\<close>

theorem timeout_starts_one_retry:
  "(let s1 = step ef (generateFavicons_start w) TimerFires; s = run ef s1 evs in
      retry_pending s1 \<and> fav_calls (wd s1) = fav_calls w + 2
      \<and> fav_calls (wd s) = fav_calls w + 2
      \<and> \<not> scheduled s
      \<and> (\<forall>res. promise (step ef s (FirstDone res)) = promise s)
      \<and> (promise s \<noteq> Pending \<longrightarrow> (\<exists>res. RetryDone res \<in> set evs \<and> promise s = settles_as res))
      \<and> ((\<forall>res. RetryDone res \<notin> set evs) \<longrightarrow>
            promise s = Pending
            \<and> (\<forall>e. promise (step ef s (RetryDone (Failed e))) = Rejected (FaviconError e))
            \<and> (\<forall>r. writes_ok ef r (wd s) \<longrightarrow>
                  promise (step ef s (RetryDone (Produced r))) = Fulfilled (html r))))"
proof -
  let ?s1 = "on_timeout (generateFavicons_start w)"
  let ?s = "run ef ?s1 evs"
  have t: "\<not> timer ?s1" "\<not> scheduled ?s1" by (simp_all add: timeout_state)
  have a: "\<not> timer ?s" "\<not> scheduled ?s" "fav_calls (wd ?s) = fav_calls w + 2"
    using run_fired [OF t, of ef evs] by (simp_all add: timeout_state)
  have b: "\<forall>res. promise (step ef ?s (FirstDone res)) = promise ?s"
    using late_first_ignored [OF a(1)] by blast
  have c: "promise ?s \<noteq> Pending \<longrightarrow> (\<exists>res. RetryDone res \<in> set evs \<and> promise ?s = settles_as res)"
    using run_promise_fired [OF t, of ef evs] by (auto simp: timeout_state)
  have d: "(\<forall>res. RetryDone res \<notin> set evs) \<longrightarrow>
            promise ?s = Pending
            \<and> (\<forall>e. promise (step ef ?s (RetryDone (Failed e))) = Rejected (FaviconError e))
            \<and> (\<forall>r. writes_ok ef r (wd ?s) \<longrightarrow>
                  promise (step ef ?s (RetryDone (Produced r))) = Fulfilled (html r))"
  proof
    assume n: "\<forall>res. RetryDone res \<notin> set evs"
    have "retry_pending ?s \<and> promise ?s = Pending"
      using run_awaiting_retry [OF t _ _ n, of ef] by (simp add: timeout_state)
    then show "promise ?s = Pending
            \<and> (\<forall>e. promise (step ef ?s (RetryDone (Failed e))) = Rejected (FaviconError e))
            \<and> (\<forall>r. writes_ok ef r (wd ?s) \<longrightarrow>
                  promise (step ef ?s (RetryDone (Produced r))) = Fulfilled (html r))"
      using retry_settles by blast
  qed
  show ?thesis
    unfolding Let_def timeout_state(7)
    using a(2,3) b c d by (simp add: timeout_state)
qed

lemmas favicon_eval =
  generateFavicons_start_def on_timeout_def invoke_favicons_def emit_def
  generateFav_callback_def writeFileSync_def parent_dir_def
  promise_resolve_def promise_reject_def guarded_resolve_def guarded_reject_def
  favicon_demo_def late_response_def retry_response_def

theorem timeout_starts_one_retry_witness:
  "fav_calls (wd (run ''pwa'' (step ''pwa'' (generateFavicons_start favicon_demo) TimerFires)
       [RetryDone (Produced retry_response), FirstDone (Produced late_response)])) = 2
   \<and> \<not> scheduled (run ''pwa'' (step ''pwa'' (generateFavicons_start favicon_demo) TimerFires)
       [RetryDone (Produced retry_response), FirstDone (Produced late_response)])
   \<and> promise (run ''pwa'' (step ''pwa'' (generateFavicons_start favicon_demo) TimerFires)
       [RetryDone (Produced retry_response), FirstDone (Produced late_response)]) = Fulfilled [''<link retry>'']"
proof -
  let ?s = "run ''pwa'' (step ''pwa'' (generateFavicons_start favicon_demo) TimerFires)
       [RetryDone (Produced retry_response), FirstDone (Produced late_response)]"
  note T = timeout_starts_one_retry [of "''pwa''" favicon_demo
        "[RetryDone (Produced retry_response), FirstDone (Produced late_response)]", unfolded Let_def]
  have a: "fav_calls (wd ?s) = fav_calls favicon_demo + 2" using T by blast
  have b: "\<not> scheduled ?s" using T by blast
  have c: "promise ?s \<noteq> Pending \<longrightarrow>
      (\<exists>res. RetryDone res \<in> set [RetryDone (Produced retry_response), FirstDone (Produced late_response)]
         \<and> promise ?s = settles_as res)"
    using T by blast
  have "promise ?s \<noteq> Pending"
    by (simp add: favicon_eval)
  with c have "promise ?s = settles_as (Produced retry_response)" by auto
  then have "promise ?s = Fulfilled [''<link retry>'']"
    by (simp add: settles_as_def retry_response_def)
  moreover have "fav_calls favicon_demo = 0" by (simp add: favicon_demo_def)
  ultimately show ?thesis using a b by simp
qed

section \<open>Favicon Orchestrator: a late first attempt\<close>

lemma step_first_pending:
  "\<forall>res. e \<noteq> FirstDone res \<Longrightarrow> first_pending (step ef s e) = first_pending s"
  by (cases e) (simp_all add: callback_fields on_timeout_def)

lemma run_fired_first_pending:
  assumes "\<not> timer s" "\<not> scheduled s" "first_pending s" "\<forall>res. FirstDone res \<notin> set evs"
  shows "\<not> timer (run ef s evs) \<and> first_pending (run ef s evs)"
  using assms
proof (induction evs arbitrary: s)
  case Nil
  then show ?case by simp
next
  case (Cons e es)
  have e: "\<forall>res. e \<noteq> FirstDone res" and es: "\<forall>res. FirstDone res \<notin> set es"
    using Cons.prems(4) by auto
  have "\<not> timer (step ef s e)" "\<not> scheduled (step ef s e)"
    using step_fired [OF Cons.prems(1,2)] by simp_all
  moreover have "first_pending (step ef s e)"
    using step_first_pending [OF e] Cons.prems(3) by simp
  ultimately show ?case using Cons.IH es by simp
qed

lemma run_armed_then_fired:
  assumes "timer s" "scheduled s" "first_pending s" "\<not> retry_pending s"
    and "TimerFires \<in> set evs" "\<forall>res. FirstDone res \<notin> set evs"
  shows "\<not> timer (run ef s evs) \<and> first_pending (run ef s evs)"
  using assms
proof (induction evs arbitrary: s)
  case Nil
  then show ?case by simp
next
  case (Cons e es)
  have es: "\<forall>res. FirstDone res \<notin> set es" using Cons.prems(6) by auto
  show ?case
  proof (cases e)
    case (FirstDone res)
    with Cons.prems(6) show ?thesis by auto
  next
    case TimerFires
    then have "\<not> timer (step ef s e)" "\<not> scheduled (step ef s e)" "first_pending (step ef s e)"
      using Cons.prems(2,3) by (simp_all add: on_timeout_def)
    from run_fired_first_pending [OF this es] show ?thesis by simp
  next
    case (RetryDone res)
    then have "step ef s e = s" using Cons.prems(4) by simp
    moreover have "TimerFires \<in> set es" using Cons.prems(5) RetryDone by auto
    ultimately show ?thesis using Cons.IH [OF Cons.prems(1-4) _ es] by simp
  qed
qed

lemma first_callback_writes:
  assumes "\<not> timer s" "first_pending s" "writes_ok ef r (wd s)"
  shows "promise (step ef s (FirstDone (Produced r))) = promise s
    \<and> (\<forall>p. nodes (wd (step ef s (FirstDone (Produced r)))) p =
          (case map_of (rev (map (\<lambda>(name, contents). (ef @ ''/'' @ name, contents)) (images r @ files r))) p of
             Some c \<Rightarrow> Some (File c (clock (wd s))) | None \<Rightarrow> nodes (wd s) p))"
proof -
  let ?s0 = "s\<lparr>first_pending := False\<rparr>"
  have i: "list_all (\<lambda>(name, contents). writable (wd s) (ef @ ''/'' @ name)) (images r @ files r)"
    using assms(3) by (simp add: writes_ok_def)
  from write_all_succeeds [OF i] obtain w' where
    w': "write_all ef (images r @ files r) (wd s) = (None, w')"
    and n: "\<forall>p. nodes w' p =
          (case map_of (rev (map (\<lambda>(name, contents). (ef @ ''/'' @ name, contents)) (images r @ files r))) p of
             Some c \<Rightarrow> Some (File c (clock (wd s))) | None \<Rightarrow> nodes (wd s) p)"
    by blast
  from w' obtain w1 where "write_all ef (images r) (wd s) = (None, w1)" "write_all ef (files r) w1 = (None, w')"
    by (auto simp: write_all_append split: prod.splits option.splits)
  then have "generateFav_callback ef guarded_resolve guarded_reject (Produced r) ?s0 = ?s0\<lparr>wd := w'\<rparr>"
    using assms(1) by (simp add: generateFav_callback_def)
  then have "step ef s (FirstDone (Produced r)) = ?s0\<lparr>wd := w'\<rparr>"
    using assms(2) by simp
  with n show ?thesis by simp
qed

text \<open>
  Claim C10. The timeout has fired and the first attempt has not called back yet
  (the retry may be under way or done). When the first attempt then completes with a
  response, its callback writes every image and every auxiliary file of the response
  under the export folder, although the promise stays exactly as it was: the guard
  holds back the settlement only. Each written path holds a file with the current time;
  with distinct names it holds the contents the response gives for that name. (Every
  path can be written: none is a directory, and the export folder stands.)
\<close>

theorem late_first_attempt_still_writes:
  assumes "TimerFires \<in> set evs" and "\<forall>res. FirstDone res \<notin> set evs"
    and "s = run ef (generateFavicons_start w) evs"
    and "writes_ok ef r (wd s)"
  shows "promise (step ef s (FirstDone (Produced r))) = promise s
    \<and> (\<forall>(name, contents)\<in>set (images r @ files r).
          \<exists>c. nodes (wd (step ef s (FirstDone (Produced r)))) (ef @ ''/'' @ name) = Some (File c (clock (wd s)))
            \<and> (distinct (map fst (images r @ files r)) \<longrightarrow> c = contents))"
proof -
  let ?xs = "images r @ files r"
  let ?m = "map_of (rev (map (\<lambda>(name, contents). (ef @ ''/'' @ name, contents)) ?xs))"
  have "timer (generateFavicons_start w)" "scheduled (generateFavicons_start w)"
    "first_pending (generateFavicons_start w)" "\<not> retry_pending (generateFavicons_start w)"
    by (simp_all add: generateFavicons_start_def)
  from run_armed_then_fired [OF this assms(1,2), of ef] assms(3)
  have f: "\<not> timer s" "first_pending s" by simp_all
  from first_callback_writes [OF f assms(4)]
  have p: "promise (step ef s (FirstDone (Produced r))) = promise s"
    and n: "\<forall>p. nodes (wd (step ef s (FirstDone (Produced r)))) p =
          (case ?m p of Some c \<Rightarrow> Some (File c (clock (wd s))) | None \<Rightarrow> nodes (wd s) p)"
    by simp_all
  have "\<forall>(name, contents)\<in>set ?xs.
          \<exists>c. nodes (wd (step ef s (FirstDone (Produced r)))) (ef @ ''/'' @ name) = Some (File c (clock (wd s)))
            \<and> (distinct (map fst ?xs) \<longrightarrow> c = contents)"
  proof (intro ballI, clarify)
    fix name contents assume in_xs: "(name, contents) \<in> set ?xs"
    have "ef @ ''/'' @ name \<in> fst ` set (rev (map (\<lambda>(name, contents). (ef @ ''/'' @ name, contents)) ?xs))"
      using in_xs by force
    then obtain c where c: "?m (ef @ ''/'' @ name) = Some c"
      by (metis map_of_eq_None_iff not_None_eq)
    have "distinct (map fst ?xs) \<longrightarrow> c = contents"
      using map_of_written [of ?xs name contents ef] in_xs c by auto
    with n c show "\<exists>c. nodes (wd (step ef s (FirstDone (Produced r)))) (ef @ ''/'' @ name) = Some (File c (clock (wd s)))
            \<and> (distinct (map fst ?xs) \<longrightarrow> c = contents)"
      by simp
  qed
  with p show ?thesis by blast
qed

theorem late_first_attempt_still_writes_witness:
  "promise (step ''pwa'' (run ''pwa'' (generateFavicons_start favicon_demo)
                [TimerFires, RetryDone (Produced retry_response)]) (FirstDone (Produced late_response)))
     = Fulfilled [''<link retry>'']
   \<and> nodes (wd (step ''pwa'' (run ''pwa'' (generateFavicons_start favicon_demo)
                [TimerFires, RetryDone (Produced retry_response)]) (FirstDone (Produced late_response))))
       ''pwa/icon.png'' = Some (File ''LATE'' 31000)
   \<and> nodes (wd (step ''pwa'' (run ''pwa'' (generateFavicons_start favicon_demo)
                [TimerFires, RetryDone (Produced retry_response)]) (FirstDone (Produced late_response))))
       ''pwa/manifest.json'' = Some (File ''{}'' 31000)"
proof -
  let ?evs = "[TimerFires, RetryDone (Produced retry_response)]"
  let ?s = "run ''pwa'' (generateFavicons_start favicon_demo) ?evs"
  let ?s' = "step ''pwa'' ?s (FirstDone (Produced late_response))"
  have h1: "TimerFires \<in> set ?evs" by simp
  have h2: "\<forall>res. FirstDone res \<notin> set ?evs" by simp
  have h3: "?s = run ''pwa'' (generateFavicons_start favicon_demo) ?evs" by simp
  have h4: "writes_ok ''pwa'' late_response (wd ?s)"
    by (simp add: writes_ok_def writable_def is_dir_def existsSync_def favicon_eval)
  note T = late_first_attempt_still_writes [OF h1 h2 h3 h4]
  have p: "promise ?s' = promise ?s" using T by blast
  have d: "distinct (map fst (images late_response @ files late_response))"
    by (simp add: late_response_def)
  have i1: "(''icon.png'', ''LATE'') \<in> set (images late_response @ files late_response)"
    and i2: "(''manifest.json'', ''{}'') \<in> set (images late_response @ files late_response)"
    by (simp_all add: late_response_def)
  have c: "clock (wd ?s) = 31000" by (simp add: favicon_eval)
  have n1: "nodes (wd ?s') (''pwa'' @ ''/'' @ ''icon.png'') = Some (File ''LATE'' (clock (wd ?s)))"
    using T [THEN conjunct2, rule_format, OF i1] d by blast
  have n2: "nodes (wd ?s') (''pwa'' @ ''/'' @ ''manifest.json'') = Some (File ''{}'' (clock (wd ?s)))"
    using T [THEN conjunct2, rule_format, OF i2] d by blast
  have "promise ?s = Fulfilled [''<link retry>'']" by (simp add: favicon_eval)
  with p n1 n2 c show ?thesis by simp
qed

section \<open>Favicon Orchestrator: an error while the timer is armed\<close>

text \<open>
  Claim C2, on the code. The first attempt reports an error while the timer is armed:
  the promise rejects with that error, but nothing clears the timeout (only the
  continuation of a fulfilled promise does), so the timer variable still holds its
  handle and the timeout is still scheduled. When it fires, the timeout callback invokes
  the capability once more: a retry is issued after the rejection.
\<close>

theorem error_leaves_timer_armed:
  "(let s1 = step ef (generateFavicons_start w) (FirstDone (Failed e));
        s2 = step ef s1 TimerFires in
      promise s1 = Rejected (FaviconError e) \<and> timer s1 \<and> scheduled s1
      \<and> fav_calls (wd s1) = fav_calls w + 1
      \<and> promise s2 = Rejected (FaviconError e) \<and> retry_pending s2
      \<and> fav_calls (wd s2) = fav_calls w + 2)"
  by (simp add: generateFavicons_start_def on_timeout_def invoke_favicons_def emit_def
      promise_reject_def guarded_reject_def)

theorem error_leaves_timer_armed_witness:
  "scheduled (step ''pwa'' (generateFavicons_start favicon_demo) (FirstDone (Failed ''no icon'')))
   \<and> fav_calls (wd (step ''pwa'' (step ''pwa'' (generateFavicons_start favicon_demo)
         (FirstDone (Failed ''no icon''))) TimerFires)) = 2"
proof -
  note T = error_leaves_timer_armed [of "''pwa''" favicon_demo "''no icon''", unfolded Let_def]
  have a: "scheduled (step ''pwa'' (generateFavicons_start favicon_demo) (FirstDone (Failed ''no icon'')))"
    using T by blast
  have b: "fav_calls (wd (step ''pwa'' (step ''pwa'' (generateFavicons_start favicon_demo)
         (FirstDone (Failed ''no icon''))) TimerFires)) = fav_calls favicon_demo + 2"
    using T by blast
  have "fav_calls favicon_demo = 0" by (simp add: favicon_demo_def)
  with a b show ?thesis by presburger
qed

section \<open>Manifest Merger\<close>



lemma mark_fields [simp]:
  "src (mark p i) = src i" "sizes (mark p i) = sizes i" "type (mark p i) = type i"
  "purpose (mark p i) = (if matches p i then Some ''any maskable'' else purpose i)"
  by (simp_all add: mark_def)




lemma merge_paths:
  "path_join ''.'' ''pwa/android-chrome-192x192.png'' = ''pwa/android-chrome-192x192.png''"
  "path_join ''public'' ''pwa/m.png'' = ''public/pwa/m.png''"
  "path_join ''public'' ''pwa'' = ''public/pwa''"
  "path_join ''/'' ''pwa/m.png'' = ''/pwa/m.png''"
  "path_join ''/'' ''pwa'' = ''/pwa''"
  "path_join ''pwa'' ''android-chrome-192x192.png'' = ''pwa/android-chrome-192x192.png''"
  "path_join ''pwa'' ''pwa'' = ''pwa/pwa''"
  "path_join ''public'' ''missing.png'' = ''public/missing.png''"
  by (simp_all add: path_join_def normalize_def)






section \<open>Staleness Gate\<close>

lemma emit_fields [simp]:
  "nodes (emit s msg w) = nodes w" "clock (emit s msg w) = clock w"
  "fav_calls (emit s msg w) = fav_calls w" "log (emit s msg w) = log w @ [(s, msg)]"
  by (simp_all add: emit_def)

lemma ensureDirSync_effect:
  assumes "ensureDirSync p w1 = Inr w"
  shows "clock w = clock w1 \<and> log w = log w1 \<and> fav_calls w = fav_calls w1
    \<and> (\<forall>q. q \<noteq> p \<longrightarrow> nodes w q = nodes w1 q)
    \<and> nodes w p = (case nodes w1 p of None \<Rightarrow> Some (Dir (clock w1)) | Some n \<Rightarrow> Some n)"
  using assms by (auto simp: ensureDirSync_def split: option.splits node.splits)

text \<open>
  Claim C1, as the code has it. The run prints its first line and makes sure that the
  target folder exists, before anything else. In the world this leaves, the configuration
  file is read and parsed, the template exists, the force flag is not set and the cache
  marker's modification time is at least the greatest modification time of the sources
  (a source that cannot be stat'ed counting as the current time). Then the run returns
  at the gate: the favicon capability is not invoked, and but for the printed line and
  the target folder, which is created if it was absent, the world is as it was: no file
  is written, rewritten or re-timed, the cache marker included.
\<close>

theorem gate_returns_before_pipeline:
  assumes "ensureDirSync (targetFolder opts)
             (emit Stdout (preparing_message (configPath opts) (targetFolder opts)) w0) = Inr w"
    and "readFileSync w (configPath opts) = Inr text"
    and "existsSync w (templateFilePath opts)"
    and "parseConfig E text = Some cfg"
    and "\<not> force opts"
    and "lastTime w (cache_file opts w) \<ge> maxTime w opts cfg"
  shows "generateApp E opts evs w0 = (Skipped, w)
    \<and> fav_calls w = fav_calls w0 \<and> clock w = clock w0
    \<and> log w = log w0 @ [(Stdout, preparing_message (configPath opts) (targetFolder opts))]
    \<and> (\<forall>p. p \<noteq> targetFolder opts \<longrightarrow> nodes w p = nodes w0 p)
    \<and> nodes w (targetFolder opts)
        = (case nodes w0 (targetFolder opts) of None \<Rightarrow> Some (Dir (clock w0)) | Some n \<Rightarrow> Some n)"
proof -
  have c: "existsSync w (configPath opts)"
    using assms(2) by (auto simp: readFileSync_def existsSync_def split: option.splits)
  have f: "fresh w opts cfg" using assms(5,6) by (simp add: fresh_def)
  have "generateApp E opts evs w0 = (Skipped, w)"
    using assms(1,2,3,4) c f by (simp add: generateApp_def Let_def)
  with ensureDirSync_effect [OF assms(1)] show ?thesis by (auto split: option.splits)
qed

lemma gate_demo_entry:
  "ensureDirSync (targetFolder demo_options)
     (emit Stdout (preparing_message (configPath demo_options) (targetFolder demo_options)) gate_demo)
   = Inr (gate_demo\<lparr>nodes := (nodes gate_demo)(''public'' \<mapsto> Dir 5000),
                    log := [(Stdout, ''preparing from application.json to public...'')]\<rparr>)"
  by (simp add: ensureDirSync_def emit_def demo_options_def gate_demo_def preparing_message_def)

lemma gate_demo_times:
  "lastTime (gate_demo\<lparr>nodes := (nodes gate_demo)(''public'' \<mapsto> Dir 5000), log := l\<rparr>)
      (cache_file demo_options (gate_demo\<lparr>nodes := (nodes gate_demo)(''public'' \<mapsto> Dir 5000), log := l\<rparr>)) = 3000"
  "maxTime (gate_demo\<lparr>nodes := (nodes gate_demo)(''public'' \<mapsto> Dir 5000), log := l\<rparr>) demo_options demo_config = 2000"
  by (simp_all add: lastTime_def maxTime_def cache_file_def source_time_def statSync_def existsSync_def
      other_sources_def truthy_def js_str_def demo_options_def demo_config_def gate_demo_def)

theorem gate_returns_before_pipeline_witness:
  "generateApp demo_env demo_options [FirstDone (Produced late_response)] gate_demo
     = (Skipped, gate_demo\<lparr>nodes := (nodes gate_demo)(''public'' \<mapsto> Dir 5000),
                          log := [(Stdout, ''preparing from application.json to public...'')]\<rparr>)
   \<and> nodes (gate_demo\<lparr>nodes := (nodes gate_demo)(''public'' \<mapsto> Dir 5000),
                          log := [(Stdout, ''preparing from application.json to public...'')]\<rparr>)
         ''.prepare-for-web-cache'' = Some (File ''3000'' 3000)"
proof -
  let ?w = "gate_demo\<lparr>nodes := (nodes gate_demo)(''public'' \<mapsto> Dir 5000),
                          log := [(Stdout, ''preparing from application.json to public...'')]\<rparr>"
  have h2: "readFileSync ?w (configPath demo_options) = Inr ''{}''"
    by (simp add: readFileSync_def demo_options_def gate_demo_def)
  have h3: "existsSync ?w (templateFilePath demo_options)"
    by (simp add: existsSync_def demo_options_def gate_demo_def)
  have h4: "parseConfig demo_env ''{}'' = Some demo_config" by (simp add: demo_env_def)
  have h5: "\<not> force demo_options" by (simp add: demo_options_def)
  have h6: "lastTime ?w (cache_file demo_options ?w) \<ge> maxTime ?w demo_options demo_config"
    by (simp add: gate_demo_times)
  from gate_returns_before_pipeline [OF gate_demo_entry h2 h3 h4 h5 h6]
  have "generateApp demo_env demo_options [FirstDone (Produced late_response)] gate_demo = (Skipped, ?w)"
    by blast
  moreover have "nodes ?w ''.prepare-for-web-cache'' = Some (File ''3000'' 3000)"
    by (simp add: gate_demo_def)
  ultimately show ?thesis by blast
qed

text \<open>
  The claim C1 as the specification words it, that the run has no side effect, fails
  where the target folder does not exist yet: the cache marker is newer than every
  source and the force flag is not set, the run returns at the gate, and it has created
  the folder.
\<close>

theorem gate_creates_target_folder_counterexample:
  "\<not> force demo_options
   \<and> fst (generateApp demo_env demo_options [] gate_demo) = Skipped
   \<and> nodes gate_demo ''public'' = None
   \<and> nodes (snd (generateApp demo_env demo_options [] gate_demo)) ''public'' = Some (Dir 5000)
   \<and> statSync gate_demo ''.prepare-for-web-cache'' = Inr 3000
   \<and> map (statSync gate_demo) (sources_of demo_options demo_config) = [Inr 1000, Inr 1000, Inr 2000]"
proof -
  let ?w = "gate_demo\<lparr>nodes := (nodes gate_demo)(''public'' \<mapsto> Dir 5000),
                          log := [(Stdout, ''preparing from application.json to public...'')]\<rparr>"
  have "generateApp demo_env demo_options [] gate_demo = (Skipped, ?w)"
    using gate_demo_entry gate_demo_times [of "[(Stdout, ''preparing from application.json to public...'')]"]
    by (simp add: generateApp_def Let_def fresh_def existsSync_def readFileSync_def
        demo_options_def demo_env_def gate_demo_def)
  moreover have "map (statSync gate_demo) (sources_of demo_options demo_config) = [Inr 1000, Inr 1000, Inr 2000]"
    by (simp add: sources_of_def other_sources_def statSync_def truthy_def js_str_def
        demo_options_def demo_config_def gate_demo_def)
  ultimately show ?thesis
    by (simp add: demo_options_def gate_demo_def statSync_def)
qed

section \<open>A manifest that cannot be parsed\<close>

lemmas pipeline_eval =
  generateApp_def build_def after_favicons_def patch_manifest_def read_manifest_def
  write_manifest_def merge_icon_def merge_entry_def found_in_def
  generateBasicIndexHTML_def commit_cache_def write_robots_def ens_name_def
  generateFavicons_def generateFavicons_start_def on_timeout_def invoke_favicons_def
  generateFav_callback_def promise_resolve_def promise_reject_def guarded_resolve_def
  guarded_reject_def
  fresh_def maxTime_def lastTime_def cache_file_def source_time_def sources_of_def
  other_sources_def rewritten_files_def rewrite_content_def is_markup_def
  existsSync_def readFileSync_def writeFileSync_def parent_dir_def statSync_def utimesSync_def
  ensureDirSync_def emit_def truthy_def js_str_def startsWith_def endsWith_def
  suffix_to_prefix path_join_def normalize_def Let_def

lemmas demo_defs =
  demo_env_def demo_options_def demo_config_def maskable_config_def maskable_ref_def
  generated_icon_def retry_response_def late_response_def

text \<open>
  Claim C6, on the code. Maskable icons are configured, the file of one of them exists,
  and the favicon capability has produced no \<open>manifest.json\<close>: reading it throws, which
  is reported, and the manifest stays undefined. The loop over the maskable icons then
  reads \<open>manifest.icons\<close> outside any \<open>try\<close>: the run rejects with a TypeError. No path
  is rewritten, no document is written and no cache marker is committed.
\<close>

theorem unparsed_manifest_aborts:
  "fst (generateApp demo_env demo_options [FirstDone (Produced retry_response)] maskable_demo)
     = Rejects TypeError
   \<and> (Stderr, parse_failure ''public/pwa/manifest.json'')
       \<in> set (log (snd (generateApp demo_env demo_options [FirstDone (Produced retry_response)] maskable_demo)))
   \<and> nodes (snd (generateApp demo_env demo_options [FirstDone (Produced retry_response)] maskable_demo))
       ''public/index.html'' = None
   \<and> nodes (snd (generateApp demo_env demo_options [FirstDone (Produced retry_response)] maskable_demo))
       ''.prepare-for-web-cache'' = None"
  by (simp add: pipeline_eval demo_defs maskable_demo_def parse_failure_def)

text \<open>
  Where no maskable icon has its file, the same failure is reported and the run goes on
  to the end: the loop only warns, and the manifest is not read again.
\<close>

lemma unparsed_manifest_without_icons_completes:
  "fst (generateApp demo_env demo_options [FirstDone (Produced retry_response)]
          (maskable_demo\<lparr>nodes := (nodes maskable_demo)(''public/m.png'' := None)\<rparr>))
     = Completed"
  by (simp add: pipeline_eval demo_defs maskable_demo_def)

section \<open>What a run leaves alone\<close>

lemma preserves_refl [simp]: "preserves opts w w"
  by (simp add: preserves_def)

lemma preserves_trans:
  assumes "preserves opts w w1" and "preserves opts w1 w2"
  shows "preserves opts w w2"
proof -
  have "nodes w2 p = nodes w p \<or> (\<exists>n. nodes w2 p = Some n \<and> clock w \<le> mtime n)" for p
  proof -
    from assms(2) have "nodes w2 p = nodes w1 p \<or> (\<exists>n. nodes w2 p = Some n \<and> clock w1 \<le> mtime n)"
      by (simp add: preserves_def)
    moreover from assms(1) have "nodes w1 p = nodes w p \<or> (\<exists>n. nodes w1 p = Some n \<and> clock w \<le> mtime n)"
      and "clock w \<le> clock w1"
      by (simp_all add: preserves_def)
    ultimately show ?thesis by force
  qed
  moreover have "\<forall>p. \<not> is_output opts p \<longrightarrow> nodes w2 p = nodes w p"
    and "\<forall>p. is_dir w p \<longrightarrow> is_dir w2 p" and "clock w \<le> clock w2"
    using assms by (auto simp: preserves_def)
  ultimately show ?thesis by (simp add: preserves_def)
qed

lemma preserves_emit [simp]: "preserves opts w (emit s msg w)"
  by (simp add: preserves_def is_dir_def)

lemma preserves_write:
  "writeFileSync p c w = Inr w' \<Longrightarrow> is_output opts p \<Longrightarrow> preserves opts w w'"
  by (auto simp: writeFileSync_def preserves_def is_dir_def split: option.splits node.splits if_splits)

lemma preserves_ensureDir:
  "ensureDirSync p w = Inr w' \<Longrightarrow> is_output opts p \<Longrightarrow> preserves opts w w'"
  by (auto simp: ensureDirSync_def preserves_def is_dir_def split: option.splits node.splits if_splits)

lemma output_paths:
  "is_output opts (targetFolder opts)"
  "is_output opts (path_join (targetFolder opts) ''robots.txt'')"
  "is_output opts (path_join (targetFolder opts) ''pwa'')"
  "is_output opts (path_join (targetFolder opts) ''pwa'' @ ''/'' @ name)"
  "is_output opts (path_join (path_join (targetFolder opts) ''pwa'') ''manifest.json'')"
  "f \<in> set rewritten_files \<Longrightarrow> is_output opts (path_join (path_join (targetFolder opts) ''pwa'') f)"
  "is_output opts (dest_of opts)"
  by (simp_all add: is_output_def Let_def)

lemma write_all_preserves:
  "write_all (path_join (targetFolder opts) ''pwa'') xs w = (r, w') \<Longrightarrow> preserves opts w w'"
proof (induction xs arbitrary: w)
  case Nil
  then show ?case by simp
next
  case (Cons x xs)
  obtain n c where x: "x = (n, c)" by (cases x)
  let ?ef = "path_join (targetFolder opts) ''pwa''"
  show ?case
  proof (cases "writeFileSync (?ef @ ''/'' @ n) c w")
    case (Inl e)
    with Cons.prems x show ?thesis by simp
  next
    case (Inr w1)
    then have "preserves opts w w1" by (rule preserves_write) (rule output_paths)
    moreover from Cons.prems x Inr have "write_all ?ef xs w1 = (r, w')" by simp
    ultimately show ?thesis using Cons.IH preserves_trans by blast
  qed
qed

lemma callback_preserves:
  assumes "resolve = guarded_resolve \<or> resolve = promise_resolve"
    and "reject = guarded_reject \<or> reject = promise_reject"
  shows "preserves opts (wd s)
           (wd (generateFav_callback (path_join (targetFolder opts) ''pwa'') resolve reject res s))"
proof (cases res)
  case (Failed e)
  with assms show ?thesis by auto
next
  case (Produced r)
  let ?ef = "path_join (targetFolder opts) ''pwa''"
  obtain r1 w1 where a: "write_all ?ef (images r) (wd s) = (r1, w1)" by (cases "write_all ?ef (images r) (wd s)")
  obtain r2 w2 where b: "write_all ?ef (files r) w1 = (r2, w2)" by (cases "write_all ?ef (files r) w1")
  have p1: "preserves opts (wd s) w1" using a by (rule write_all_preserves)
  have p2: "preserves opts (wd s) w2" using p1 write_all_preserves [OF b] preserves_trans by blast
  have e: "\<And>t. preserves opts (wd s) (emit Stdout '' done\<newline>'' w2)"
    using p2 preserves_emit preserves_trans by blast
  show ?thesis
    using assms a b p1 p2 e Produced
    by (auto simp: generateFav_callback_def guarded_resolve_def promise_resolve_def
        split: option.splits)
qed

lemma step_preserves:
  "preserves opts (wd s) (wd (step (path_join (targetFolder opts) ''pwa'') s e))"
proof (cases e)
  case (FirstDone res)
  then show ?thesis
    using callback_preserves [of guarded_resolve guarded_reject opts "s\<lparr>first_pending := False\<rparr>" res]
    by simp
next
  case TimerFires
  then show ?thesis
    by (simp add: on_timeout_def invoke_favicons_def preserves_def is_dir_def)
next
  case (RetryDone res)
  then show ?thesis
    using callback_preserves [of promise_resolve promise_reject opts "s\<lparr>retry_pending := False\<rparr>" res]
    by simp
qed

lemma await_preserves:
  "preserves opts (wd s) (wd (await_settled (path_join (targetFolder opts) ''pwa'') s evs))"
proof (induction evs arbitrary: s)
  case Nil
  then show ?case by simp
next
  case (Cons e es)
  show ?case
    using step_preserves [of opts s e] Cons.IH [of "step (path_join (targetFolder opts) ''pwa'') s e"]
      preserves_trans
    by auto
qed

lemma generateFavicons_preserves:
  "preserves opts w (wd (generateFavicons (path_join (targetFolder opts) ''pwa'') evs w))"
proof -
  have "preserves opts w (wd (generateFavicons_start w))"
    by (simp add: generateFavicons_start_def invoke_favicons_def preserves_def is_dir_def)
  then show ?thesis
    unfolding generateFavicons_def
    using await_preserves [of opts "generateFavicons_start w" evs] preserves_trans by blast
qed

lemma world_of_simps [simp]:
  "world_of (Inl (e, w)) = w" "world_of (Inr (x, w)) = w"
  by (simp_all add: world_of_def)

lemma merge_icons_preserves: "preserves opts w (world_of (merge_icons pf ms mf w))"
proof (induction ms arbitrary: mf w)
  case Nil
  then show ?case by simp
next
  case (Cons m ms)
  show ?case
  proof (cases "merge_icon pf m mf w")
    case (Inl ew)
    then have "snd ew = w \<or> snd ew = emit Stderr (missing_icon_warning (path_join pf (src m))) w"
      by (auto simp: merge_icon_def Let_def split: if_splits option.splits)
    with Inl show ?thesis by (cases ew) auto
  next
    case (Inr r)
    obtain mf' w1 where r: "r = (mf', w1)" by (cases r)
    with Inr have "w1 = w \<or> w1 = emit Stderr (missing_icon_warning (path_join pf (src m))) w"
      by (auto simp: merge_icon_def Let_def split: if_splits option.splits)
    then have "preserves opts w w1" by auto
    with Cons.IH [of w1 mf'] preserves_trans Inr r show ?thesis by auto
  qed
qed

lemma read_manifest_preserves: "preserves opts w (snd (read_manifest E p w))"
  by (auto simp: read_manifest_def split: sum.splits option.splits)

lemma write_manifest_preserves:
  "is_output opts p \<Longrightarrow> preserves opts w (write_manifest E p mf w)"
  by (auto simp: write_manifest_def preserves_write split: sum.splits option.splits)

lemma patch_manifest_preserves:
  "preserves opts w
     (world_of (patch_manifest E (targetFolder opts) (path_join (targetFolder opts) ''pwa'') ms w))"
proof -
  let ?mp = "path_join (path_join (targetFolder opts) ''pwa'') ''manifest.json''"
  obtain mf w1 where r: "read_manifest E ?mp w = (mf, w1)" by (cases "read_manifest E ?mp w")
  have p1: "preserves opts w w1" using read_manifest_preserves [of opts w E ?mp] r by simp
  show ?thesis
  proof (cases "merge_icons (targetFolder opts) ms mf w1")
    case (Inl ew)
    with merge_icons_preserves [of opts w1 "targetFolder opts" ms mf] p1 r preserves_trans
    show ?thesis by (cases ew) (auto simp: patch_manifest_def Let_def)
  next
    case (Inr x)
    obtain mf' w2 where x: "x = (mf', w2)" by (cases x)
    have "preserves opts w1 w2"
      using merge_icons_preserves [of opts w1 "targetFolder opts" ms mf] Inr x by simp
    moreover have "preserves opts w2 (write_manifest E ?mp mf' w2)"
      by (rule write_manifest_preserves) (rule output_paths)
    ultimately have "preserves opts w (write_manifest E ?mp mf' w2)"
      using p1 preserves_trans by blast
    with Inr x r show ?thesis by (simp add: patch_manifest_def Let_def)
  qed
qed

lemma replaceRootPaths_preserves:
  "\<forall>f\<in>set names. is_output opts (path_join folder f) \<Longrightarrow>
   preserves opts w (world_of (replaceRootPaths folder names w))"
proof (induction names arbitrary: w)
  case Nil
  then show ?case by simp
next
  case (Cons f fs)
  let ?p = "path_join folder f"
  have out: "is_output opts ?p" and rest: "\<forall>f\<in>set fs. is_output opts (path_join folder f)"
    using Cons.prems by simp_all
  show ?case
  proof (cases "existsSync w ?p")
    case False
    with Cons.IH [OF rest, of w] show ?thesis by simp
  next
    case True
    show ?thesis
    proof (cases "readFileSync w ?p")
      case (Inl e)
      with True show ?thesis by simp
    next
      case (Inr content)
      show ?thesis
      proof (cases "writeFileSync ?p (rewrite_content f content) w")
        case (Inl e)
        with True Inr show ?thesis by simp
      next
        case (Inr w1)
        then have "preserves opts w w1" using out by (rule preserves_write)
        with Cons.IH [OF rest, of w1] preserves_trans True \<open>readFileSync w ?p = Inr content\<close> Inr
        show ?thesis by auto
      qed
    qed
  qed
qed

lemma generateBasicIndexHTML_preserves:
  "preserves opts w
     (world_of (generateBasicIndexHTML E tpl (targetFolder opts) title meta fo (targetFile opts) b w))"
proof -
  let ?w1 = "emit Stdout ''generating html...'' w"
  have d: "\<And>c w'. writeFileSync (dest_of opts) c ?w1 = Inr w' \<Longrightarrow>
      preserves opts w (emit Stdout '' done\<newline>'' w')"
  proof -
    fix c w' assume "writeFileSync (dest_of opts) c ?w1 = Inr w'"
    then have "preserves opts ?w1 w'" by (rule preserves_write) (rule output_paths)
    then show "preserves opts w (emit Stdout '' done\<newline>'' w')"
      using preserves_emit preserves_trans by blast
  qed
  show ?thesis
    unfolding generateBasicIndexHTML_def Let_def dest_of_def [symmetric]
    using d by (auto split: sum.splits option.splits)
qed
section \<open>The cache commit\<close>

lemma utimesSync_effect:
  "utimesSync p secs w = Inr w' \<Longrightarrow>
     nodes w' = (nodes w)(p := map_option (set_mtime (secs * 1000)) (nodes w p))
     \<and> clock w' = clock w \<and> log w' = log w \<and> fav_calls w' = fav_calls w"
  by (auto simp: utimesSync_def split: option.splits)

lemma utimesSync_fails: "utimesSync p secs w = Inl e \<Longrightarrow> nodes w p = None"
  by (auto simp: utimesSync_def split: option.splits)

lemma touch_sources_effect:
  "nodes (touch_sources srcs now w) p
     = (if p \<in> set srcs then map_option (set_mtime (now * 1000)) (nodes w p) else nodes w p)
   \<and> clock (touch_sources srcs now w) = clock w"
proof (induction srcs arbitrary: w)
  case Nil
  then show ?case by simp
next
  case (Cons s srcs)
  show ?case
  proof (cases "utimesSync s now w")
    case (Inl e)
    from utimesSync_fails [OF Inl] Cons.IH [of w] Inl show ?thesis by auto
  next
    case (Inr w1)
    have idem: "\<And>n. set_mtime (now * 1000) (set_mtime (now * 1000) n) = set_mtime (now * 1000) n"
      by (case_tac n) simp_all
    from utimesSync_effect [OF Inr] Cons.IH [of w1] Inr idem show ?thesis
      by (cases "nodes w s") (auto simp: option.map_comp)
  qed
qed

lemma mtime_set_mtime [simp]: "mtime (set_mtime t n) = t"
  by (cases n) simp_all

lemma is_dir_touch: "is_dir (touch_sources srcs now w) p = is_dir w p"
proof -
  have "\<And>n. (case set_mtime (now * 1000) n of Dir t \<Rightarrow> True | _ \<Rightarrow> False)
      = (case n of Dir t \<Rightarrow> True | _ \<Rightarrow> False)"
    by (case_tac n) simp_all
  then show ?thesis
    using touch_sources_effect [of srcs now w p]
    by (cases "nodes w p") (auto simp: is_dir_def)
qed

lemma commit_cache_success:
  assumes "commit_cache C srcs now w = Inr (x, w')"
  shows "(\<exists>c. nodes w' C = Some (File c (now * 1000)))
    \<and> (\<forall>p\<in>set srcs. \<forall>n. nodes w' p = Some n \<longrightarrow> mtime n = now * 1000)"
proof -
  let ?w1 = "touch_sources srcs now (emit Stdout ''caching...'' w)"
  from assms obtain w2 w3 where
    wr: "writeFileSync C (toString (clock ?w1)) ?w1 = Inr w2"
    and ut: "utimesSync C now w2 = Inr w3"
    and w': "w' = emit Stdout ''done\<newline>'' w3"
    by (auto simp: commit_cache_def Let_def split: sum.splits)
  from wr have n2: "nodes w2 = (nodes ?w1)(C \<mapsto> File (toString (clock ?w1)) (clock ?w1))"
    by (auto dest: writeFileSync_written)
  from utimesSync_effect [OF ut] n2
  have n3: "nodes w3 = (nodes ?w1)(C \<mapsto> File (toString (clock ?w1)) (now * 1000))"
    by auto
  have "\<forall>p\<in>set srcs. \<forall>n. nodes w3 p = Some n \<longrightarrow> mtime n = now * 1000"
    using n3 touch_sources_effect [of srcs now "emit Stdout ''caching...'' w"] by auto
  with n3 w' show ?thesis by simp
qed

lemma exists_touch: "existsSync (touch_sources srcs now w) p = existsSync w p"
  using touch_sources_effect [of srcs now w p] by (cases "nodes w p") (auto simp: existsSync_def)

lemma writable_touch: "writable (touch_sources srcs now w) p = writable w p"
  by (simp add: writable_def is_dir_touch exists_touch)

lemma writable_emit [simp]: "writable (emit s msg w) p = writable w p"
  by (simp add: writable_def is_dir_def existsSync_def)

lemma writable_preserved:
  assumes "preserves opts w w3" and "\<not> is_output opts p" and "writable w p"
  shows "writable w3 p"
proof -
  from assms(1,2) have n: "nodes w3 p = nodes w p" by (simp add: preserves_def)
  then have "is_dir w3 p = is_dir w p" "existsSync w3 p = existsSync w p"
    by (simp_all add: is_dir_def existsSync_def)
  moreover have "is_dir w (parent_dir p) \<Longrightarrow> is_dir w3 (parent_dir p)"
    using assms(1) by (simp add: preserves_def)
  ultimately show ?thesis using assms(3) by (auto simp: writable_def)
qed

lemma commit_cache_fails:
  assumes "commit_cache C srcs now w = Inl (e, w')"
  shows "\<not> writable w C \<and> (e = EISDIR C \<or> e = ENOTDIR C \<or> e = ENOENT C)
       \<and> w' = touch_sources srcs now (emit Stdout ''caching...'' w)"
proof -
  let ?w1 = "touch_sources srcs now (emit Stdout ''caching...'' w)"
  show ?thesis
  proof (cases "writeFileSync C (toString (clock ?w1)) ?w1")
    case (Inl e')
    with assms have eq: "e = e'" "w' = ?w1" by (simp_all add: commit_cache_def Let_def)
    from writeFileSync_throws [OF Inl]
    have nw: "\<not> writable ?w1 C" and e': "e' = EISDIR C \<or> e' = ENOTDIR C \<or> e' = ENOENT C"
      by simp_all
    from nw have "\<not> writable w C" by (simp add: writable_touch)
    with eq e' show ?thesis by simp
  next
    case (Inr w2)
    then have "nodes w2 C \<noteq> None"
      by (auto dest: writeFileSync_written)
    then obtain w3 where "utimesSync C now w2 = Inr w3"
      by (auto simp: utimesSync_def split: option.splits)
    with Inr assms show ?thesis by (simp add: commit_cache_def Let_def)
  qed
qed

section \<open>The pipeline past the gate\<close>

lemma after_favicons_cases:
  assumes "after_favicons E opts cfg u C now fo w = (out, w')"
  shows "(out = Completed
           \<and> (\<exists>w3. preserves opts w w3 \<and> commit_cache C (sources_of opts cfg) now w3 = Inr ((), w')))
    \<or> ((\<exists>e. out = Rejects e) \<and> preserves opts w w')
    \<or> (\<exists>w3. (out = Rejects (EISDIR C) \<or> out = Rejects (ENOTDIR C) \<or> out = Rejects (ENOENT C))
          \<and> preserves opts w w3 \<and> \<not> writable w3 C
          \<and> w' = touch_sources (sources_of opts cfg) now (emit Stdout ''caching...'' w3))"
proof -
  let ?pf = "targetFolder opts"
  let ?ff = "path_join ?pf ''pwa''"
  let ?title = "js_str (appName cfg) @ '' - '' @ js_str (appShortDescription cfg)"
  let ?preview = "js_str u @ ''/'' @ (if truthy (preview cfg) then js_str (preview cfg) else ''preview.png'')"
  let ?r1 = "(case maskable_icons cfg of None \<Rightarrow> Inr ((), w)
             | Some ms \<Rightarrow> patch_manifest E ?pf ?ff ms w)"
  have p1: "preserves opts w (world_of ?r1)"
    using patch_manifest_preserves [of opts w E] by (cases "maskable_icons cfg") simp_all
  show ?thesis
  proof (cases ?r1)
    case (Inl ew)
    with assms p1 show ?thesis by (cases ew) (auto simp: after_favicons_def Let_def)
  next
    case (Inr xw)
    obtain x1 w1 where xw: "xw = (x1, w1)" by (cases xw)
    with Inr p1 have q1: "preserves opts w w1" by simp
    let ?r2 = "replaceRootPaths ?ff rewritten_files w1"
    have "\<forall>f\<in>set rewritten_files. is_output opts (path_join ?ff f)"
      using output_paths(6) by blast
    then have "preserves opts w1 (world_of ?r2)" by (rule replaceRootPaths_preserves)
    with q1 have p2: "preserves opts w (world_of ?r2)" using preserves_trans by blast
    show ?thesis
    proof (cases ?r2)
      case (Inl ew)
      with assms Inr xw p2 show ?thesis by (cases ew) (auto simp: after_favicons_def Let_def)
    next
      case r2: (Inr xw2)
      obtain x2 w2 where xw2: "xw2 = (x2, w2)" by (cases xw2)
      with r2 p2 have q2: "preserves opts w w2" by simp
      let ?r3 = "generateBasicIndexHTML E (templateFilePath opts) ?pf ?title
                   (meta_of ?title cfg u ?preview) fo (targetFile opts) (base cfg) w2"
      have "preserves opts w2 (world_of ?r3)" by (rule generateBasicIndexHTML_preserves)
      with q2 have p3: "preserves opts w (world_of ?r3)" using preserves_trans by blast
      show ?thesis
      proof (cases ?r3)
        case (Inl ew)
        with assms Inr xw r2 xw2 p3 show ?thesis
          by (cases ew) (auto simp: after_favicons_def Let_def)
      next
        case r3: (Inr xw3)
        obtain x3 w3 where xw3: "xw3 = (x3, w3)" by (cases xw3)
        with r3 p3 have q3: "preserves opts w w3" by simp
        show ?thesis
        proof (cases "commit_cache C (sources_of opts cfg) now w3")
          case (Inl ew)
          obtain e w4 where ew: "ew = (e, w4)" by (cases ew)
          from commit_cache_fails [of C "sources_of opts cfg" now w3 e w4] Inl ew
          have nw: "\<not> writable w3 C" and e: "e = EISDIR C \<or> e = ENOTDIR C \<or> e = ENOENT C"
            and w4: "w4 = touch_sources (sources_of opts cfg) now (emit Stdout ''caching...'' w3)"
            by simp_all
          from assms Inr xw r2 xw2 r3 xw3 Inl ew have "out = Rejects e" "w' = w4"
            by (simp_all add: after_favicons_def Let_def)
          with nw e w4 q3 show ?thesis by blast
        next
          case r4: (Inr xw4)
          obtain x4 w4 where xw4: "xw4 = (x4, w4)" by (cases xw4)
          with assms Inr xw r2 xw2 r3 xw3 r4 have "out = Completed" "w' = w4"
            by (simp_all add: after_favicons_def Let_def)
          with r4 xw4 q3 show ?thesis by auto
        qed
      qed
    qed
  qed
qed

lemma build_cases:
  assumes "build E opts cfg C now evs w = (out, w')"
  shows "(out = Completed
           \<and> (\<exists>w3. preserves opts w w3 \<and> commit_cache C (sources_of opts cfg) now w3 = Inr ((), w')))
    \<or> (out \<noteq> Completed \<and> out \<noteq> Skipped \<and> preserves opts w w')
    \<or> (\<exists>w3. (out = Rejects (EISDIR C) \<or> out = Rejects (ENOTDIR C) \<or> out = Rejects (ENOENT C))
          \<and> preserves opts w w3 \<and> \<not> writable w3 C
          \<and> w' = touch_sources (sources_of opts cfg) now (emit Stdout ''caching...'' w3))"
proof -
  let ?pf = "targetFolder opts"
  let ?ff = "path_join ?pf ''pwa''"
  let ?u = "(if truthy (applicationURL opts) then applicationURL opts else url cfg)"
  show ?thesis
  proof (cases "write_robots ?pf (ens_name (ensName cfg) ?u) w")
    case (Inl e)
    with assms show ?thesis by (auto simp: build_def Let_def)
  next
    case (Inr w1)
    then have p1: "preserves opts w w1"
      using preserves_write [of _ _ w w1 opts] output_paths(2) [of opts]
      by (auto simp: write_robots_def split: option.splits)
    show ?thesis
    proof (cases "ensureDirSync ?ff w1")
      case (Inl e)
      with assms Inr p1 show ?thesis by (auto simp: build_def Let_def)
    next
      case r2: (Inr w2)
      then have "preserves opts w1 w2" by (rule preserves_ensureDir) (rule output_paths)
      with p1 have p2: "preserves opts w w2" using preserves_trans by blast
      let ?s = "generateFavicons ?ff evs w2"
      have p3: "preserves opts w (wd ?s)"
        using p2 generateFavicons_preserves [of opts w2 evs] preserves_trans by blast
      show ?thesis
      proof (cases "promise ?s")
        case Pending
        with assms Inr r2 p3 show ?thesis by (auto simp: build_def Let_def)
      next
        case (Rejected e)
        with assms Inr r2 p3 show ?thesis by (auto simp: build_def Let_def)
      next
        case (Fulfilled fo)
        with assms Inr r2 have a: "after_favicons E opts cfg ?u C now fo (wd ?s) = (out, w')"
          by (simp add: build_def Let_def)
        from after_favicons_cases [OF a]
        consider (finished) w3 where "out = Completed" "preserves opts (wd ?s) w3"
            "commit_cache C (sources_of opts cfg) now w3 = Inr ((), w')"
          | (early) e where "out = Rejects e" "preserves opts (wd ?s) w'"
          | (late) w3 where "out = Rejects (EISDIR C) \<or> out = Rejects (ENOTDIR C) \<or> out = Rejects (ENOENT C)"
            "preserves opts (wd ?s) w3" "\<not> writable w3 C"
            "w' = touch_sources (sources_of opts cfg) now (emit Stdout ''caching...'' w3)"
          by blast
        then show ?thesis
        proof cases
          case finished
          with p3 preserves_trans show ?thesis by blast
        next
          case early
          with p3 preserves_trans have "preserves opts w w'" by blast
          with early(1) show ?thesis by simp
        next
          case late
          with p3 preserves_trans have "preserves opts w w3" by blast
          with late show ?thesis by blast
        qed
      qed
    qed
  qed
qed

lemma build_not_skipped: "build E opts cfg C now evs w = (out, w') \<Longrightarrow> out \<noteq> Skipped"
  using build_cases [of E opts cfg C now evs w out w'] by auto

lemma generateApp_entry:
  "generateApp E opts evs w0 =
     (case entry E opts w0 of
        Inl r \<Rightarrow> r
      | Inr (cfg, w) \<Rightarrow>
          if fresh w opts cfg then (Skipped, w)
          else build E opts cfg (cache_file opts w) (clock w div 1000) evs w)"
  by (simp add: generateApp_def entry_def Let_def split: sum.splits option.splits)

lemma entry_fails:
  assumes "entry E opts w0 = Inl (out, w)"
  shows "preserves opts w0 w \<and> out \<noteq> Completed \<and> out \<noteq> Skipped \<and> (\<exists>r. entry E opts w = Inl r)"
proof -
  let ?w1 = "emit Stdout (preparing_message (configPath opts) (targetFolder opts)) w0"
  show ?thesis
  proof (cases "ensureDirSync (targetFolder opts) ?w1")
    case (Inl e)
    with assms have "out = Rejects e" "w = ?w1" by (simp_all add: entry_def Let_def)
    moreover from Inl have "\<exists>e'. ensureDirSync (targetFolder opts)
        (emit Stdout (preparing_message (configPath opts) (targetFolder opts)) ?w1) = Inl e'"
      by (auto simp: ensureDirSync_def split: option.splits node.splits)
    ultimately show ?thesis by (auto simp: entry_def Let_def)
  next
    case (Inr w2)
    then have p: "preserves opts ?w1 w2" by (rule preserves_ensureDir) (rule output_paths)
    from Inr have d: "\<exists>t. nodes w2 (targetFolder opts) = Some (Dir t)"
      by (auto simp: ensureDirSync_def split: option.splits node.splits)
    have again: "\<And>v. nodes v = nodes w2 \<Longrightarrow>
        ensureDirSync (targetFolder opts)
          (emit Stdout (preparing_message (configPath opts) (targetFolder opts)) v)
        = Inr (emit Stdout (preparing_message (configPath opts) (targetFolder opts)) v)"
      using d by (auto simp: ensureDirSync_def)
    have wv: "w = w2 \<or> (\<exists>msg. w = emit Stderr msg w2)"
      and o: "out \<noteq> Completed \<and> out \<noteq> Skipped"
      using assms Inr
      by (auto simp: entry_def Let_def split: if_splits sum.splits option.splits)
    then have n: "nodes w = nodes w2" by auto
    have pw: "preserves opts w0 w"
      using p wv by (auto simp: preserves_def is_dir_def)
    have "\<exists>r. entry E opts w = Inl r"
      using assms Inr again [OF n] n
      by (auto simp: entry_def Let_def existsSync_def readFileSync_def
          split: if_splits sum.splits option.splits node.splits)
    with pw o show ?thesis by blast
  qed
qed

lemma entry_succeeds:
  assumes "entry E opts w0 = Inr (cfg, w)"
  shows "preserves opts w0 w \<and> clock w = clock w0
    \<and> (\<forall>p. p \<noteq> targetFolder opts \<longrightarrow> nodes w p = nodes w0 p)
    \<and> (\<exists>t. nodes w (targetFolder opts) = Some (Dir t))
    \<and> nodes w (targetFolder opts)
        = (case nodes w0 (targetFolder opts) of None \<Rightarrow> Some (Dir (clock w0)) | Some n \<Rightarrow> Some n)
    \<and> (\<exists>text. readFileSync w (configPath opts) = Inr text \<and> parseConfig E text = Some cfg)
    \<and> existsSync w (templateFilePath opts)"
proof -
  let ?w1 = "emit Stdout (preparing_message (configPath opts) (targetFolder opts)) w0"
  from assms obtain w2 where e: "ensureDirSync (targetFolder opts) ?w1 = Inr w2"
    by (auto simp: entry_def Let_def split: sum.splits)
  with assms have w: "w = w2"
    by (auto simp: entry_def Let_def split: if_splits sum.splits option.splits)
  have "preserves opts ?w1 w2" using e by (rule preserves_ensureDir) (rule output_paths)
  then have "preserves opts w0 w" using w by (auto simp: preserves_def is_dir_def)
  moreover from e have "\<exists>t. nodes w2 (targetFolder opts) = Some (Dir t)"
    by (auto simp: ensureDirSync_def split: option.splits node.splits)
  moreover from ensureDirSync_effect [OF e] w
  have "clock w = clock w0" "\<forall>p. p \<noteq> targetFolder opts \<longrightarrow> nodes w p = nodes w0 p"
    "nodes w (targetFolder opts)
        = (case nodes w0 (targetFolder opts) of None \<Rightarrow> Some (Dir (clock w0)) | Some n \<Rightarrow> Some n)"
    by (simp_all split: option.splits)
  moreover have "(\<exists>text. readFileSync w (configPath opts) = Inr text \<and> parseConfig E text = Some cfg)
      \<and> existsSync w (templateFilePath opts)"
    using assms e w by (auto simp: entry_def Let_def split: if_splits sum.splits option.splits)
  ultimately show ?thesis using w by blast
qed

lemma entry_again:
  assumes "\<exists>t. nodes w (targetFolder opts) = Some (Dir t)"
    and "readFileSync w (configPath opts) = Inr text" and "parseConfig E text = Some cfg"
    and "existsSync w (templateFilePath opts)"
  shows "entry E opts w = Inr (cfg, emit Stdout (preparing_message (configPath opts) (targetFolder opts)) w)"
proof -
  have "existsSync w (configPath opts)"
    using assms(2) by (auto simp: readFileSync_def existsSync_def split: option.splits)
  with assms show ?thesis
    by (auto simp: entry_def Let_def ensureDirSync_def existsSync_def readFileSync_def)
qed

section \<open>The gate after an aborted run\<close>

lemma fold_max_ge: "(a::int) \<le> fold max xs a"
proof (induction xs arbitrary: a)
  case Nil
  then show ?case by simp
next
  case (Cons x xs)
  have "a \<le> max x a" by simp
  also have "\<dots> \<le> fold max xs (max x a)" by (rule Cons.IH)
  finally show ?case by simp
qed

lemma fold_max_mono:
  "list_all2 (\<le>) xs ys \<Longrightarrow> (a::int) \<le> b \<Longrightarrow> fold max xs a \<le> fold max ys b"
proof (induction xs ys arbitrary: a b rule: list_all2_induct)
  case Nil
  then show ?case by simp
next
  case (Cons x xs y ys)
  from Cons.hyps(1) Cons.prems have "max x a \<le> max y b" by auto
  with Cons.IH show ?case by simp
qed

lemma maxTime_config: "source_time w (configPath opts) \<le> maxTime w opts cfg"
  by (simp add: maxTime_def fold_max_ge)

lemma source_time_mono:
  assumes "nodes w2 s = nodes w s \<or> (\<exists>n. nodes w2 s = Some n \<and> clock w \<le> mtime n)"
    and "clock w \<le> clock w2" and "source_time w s \<le> clock w"
  shows "source_time w s \<le> source_time w2 s"
  using assms by (auto simp: source_time_def statSync_def split: option.splits)

lemma maxTime_mono:
  assumes "preserves opts w w2"
    and "\<forall>s\<in>set (sources_of opts cfg). source_time w s \<le> clock w"
  shows "maxTime w opts cfg \<le> maxTime w2 opts cfg"
proof -
  have m: "source_time w s \<le> source_time w2 s" if "s \<in> set (sources_of opts cfg)" for s
  proof (rule source_time_mono)
    show "nodes w2 s = nodes w s \<or> (\<exists>n. nodes w2 s = Some n \<and> clock w \<le> mtime n)"
      using assms(1) by (simp add: preserves_def)
    show "clock w \<le> clock w2" using assms(1) by (simp add: preserves_def)
    show "source_time w s \<le> clock w" using assms(2) that by blast
  qed
  have "list_all2 (\<le>) (map (source_time w) (other_sources opts cfg))
          (map (source_time w2) (other_sources opts cfg))"
    using m by (simp add: list_all2_map1 list_all2_map2 list_all2_same sources_of_def)
  moreover have "source_time w (configPath opts) \<le> source_time w2 (configPath opts)"
    using m by (simp add: sources_of_def)
  ultimately show ?thesis unfolding maxTime_def by (rule fold_max_mono)
qed

lemma still_stale:
  assumes "\<not> fresh w opts cfg" and "preserves opts w w2"
    and "\<forall>s\<in>set (sources_of opts cfg). source_time w s \<le> clock w"
    and "cache_file opts w2 = cache_file opts w"
    and "nodes w2 (cache_file opts w) = nodes w (cache_file opts w)"
  shows "\<not> fresh w2 opts cfg"
proof -
  have "lastTime w2 (cache_file opts w2) = lastTime w (cache_file opts w)"
    using assms(4,5) by (simp add: lastTime_def statSync_def)
  with maxTime_mono [OF assms(2,3)] assms(1) show ?thesis by (auto simp: fresh_def)
qed

lemma is_dir_iff: "is_dir w p \<longleftrightarrow> (\<exists>t. nodes w p = Some (Dir t))"
  by (auto simp: is_dir_def split: option.splits node.splits)

lemma cache_file_same:
  "existsSync w2 ''node_modules'' = existsSync w ''node_modules'' \<Longrightarrow> cache_file opts w2 = cache_file opts w"
  by (simp add: cache_file_def)

lemma entry_source_time:
  assumes "entry E opts w0 = Inr (cfg, w)" and "source_time w0 s \<le> clock w0"
  shows "source_time w s \<le> clock w"
proof -
  from entry_succeeds [OF assms(1)]
  have ck: "clock w = clock w0" and same: "\<forall>p. p \<noteq> targetFolder opts \<longrightarrow> nodes w p = nodes w0 p"
    and t: "nodes w (targetFolder opts)
        = (case nodes w0 (targetFolder opts) of None \<Rightarrow> Some (Dir (clock w0)) | Some n \<Rightarrow> Some n)"
    by (simp_all split: option.splits)
  show ?thesis
  proof (cases "s = targetFolder opts")
    case True
    with t assms(2) ck show ?thesis
      by (auto simp: source_time_def statSync_def split: option.splits)
  next
    case False
    with same have "nodes w s = nodes w0 s" by simp
    with assms(2) ck show ?thesis
      by (auto simp: source_time_def statSync_def split: option.splits)
  qed
qed

lemma early_not_skipped:
  assumes e: "entry E opts w0 = Inr (cfg, w)" and stale: "\<not> fresh w opts cfg"
    and p: "preserves opts w w'"
    and cfgp: "\<not> is_output opts (configPath opts)"
    and A1: "\<not> is_output opts (cache_file opts w)"
    and A2: "\<not> is_output opts ''node_modules''"
    and past: "\<forall>s\<in>set (sources_of opts cfg). source_time w0 s \<le> clock w0"
  shows "fst (generateApp E opts evs' w') \<noteq> Skipped"
proof -
  let ?w2 = "emit Stdout (preparing_message (configPath opts) (targetFolder opts)) w'"
  from entry_succeeds [OF e] obtain ctext where
    dir: "\<exists>t. nodes w (targetFolder opts) = Some (Dir t)"
    and rd: "readFileSync w (configPath opts) = Inr ctext" and ps: "parseConfig E ctext = Some cfg"
    and tp: "existsSync w (templateFilePath opts)"
    by auto
  have "is_dir w (targetFolder opts)" using dir by (simp add: is_dir_iff)
  then have "is_dir w' (targetFolder opts)" using p by (simp add: preserves_def)
  then have d': "\<exists>t. nodes w' (targetFolder opts) = Some (Dir t)" by (simp add: is_dir_iff)
  have "nodes w' (configPath opts) = nodes w (configPath opts)"
    using p cfgp by (simp add: preserves_def)
  with rd have rd': "readFileSync w' (configPath opts) = Inr ctext" by (simp add: readFileSync_def)
  have "nodes w' (templateFilePath opts) = nodes w (templateFilePath opts)
      \<or> (\<exists>n. nodes w' (templateFilePath opts) = Some n \<and> clock w \<le> mtime n)"
    using p by (simp add: preserves_def)
  with tp have tp': "existsSync w' (templateFilePath opts)" by (auto simp: existsSync_def)
  from entry_again [OF d' rd' ps tp'] have e2: "entry E opts w' = Inr (cfg, ?w2)" .
  have p2: "preserves opts w ?w2"
    using p preserves_emit preserves_trans by blast
  have "nodes ?w2 ''node_modules'' = nodes w ''node_modules''"
    using A2 p by (simp add: preserves_def)
  then have "existsSync ?w2 ''node_modules'' = existsSync w ''node_modules''"
    by (simp add: existsSync_def)
  then have c2: "cache_file opts ?w2 = cache_file opts w" by (rule cache_file_same)
  have n2: "nodes ?w2 (cache_file opts w) = nodes w (cache_file opts w)"
    using A1 p by (simp add: preserves_def)
  have "\<forall>s\<in>set (sources_of opts cfg). source_time w s \<le> clock w"
    using past entry_source_time [OF e] by blast
  from still_stale [OF stale p2 this c2 n2] have "\<not> fresh ?w2 opts cfg" .
  with e2 have "generateApp E opts evs' w'
      = build E opts cfg (cache_file opts ?w2) (clock ?w2 div 1000) evs' ?w2"
    by (simp add: generateApp_entry)
  then show ?thesis
    using build_not_skipped [of E opts cfg _ _ evs' ?w2] by (metis prod.collapse)
qed

lemma retimed_not_skipped:
  assumes cfgT: "\<forall>n. nodes w' (configPath opts) = Some n \<longrightarrow> mtime n = T"
    and last: "lastTime w' (cache_file opts w') < T"
    and nm: "''node_modules'' \<noteq> targetFolder opts"
    and ct: "cache_file opts w' \<noteq> targetFolder opts"
  shows "fst (generateApp E opts evs' w') \<noteq> Skipped"
proof (cases "entry E opts w'")
  case (Inl r)
  obtain o2 w2 where r: "r = (o2, w2)" by (cases r)
  from entry_fails [of E opts w' o2 w2] Inl r have "o2 \<noteq> Skipped" by simp
  with Inl r show ?thesis by (simp add: generateApp_entry)
next
  case (Inr r)
  obtain cfg' w2 where r: "r = (cfg', w2)" by (cases r)
  from entry_succeeds [of E opts w' cfg' w2] Inr r obtain ctext where
    same: "\<forall>p. p \<noteq> targetFolder opts \<longrightarrow> nodes w2 p = nodes w' p"
    and dir: "\<exists>t. nodes w2 (targetFolder opts) = Some (Dir t)"
    and rd: "readFileSync w2 (configPath opts) = Inr ctext"
    by auto
  have ne: "configPath opts \<noteq> targetFolder opts"
    using dir rd by (auto simp: readFileSync_def)
  with same have "nodes w2 (configPath opts) = nodes w' (configPath opts)" by simp
  moreover from rd obtain n where "nodes w2 (configPath opts) = Some n"
    by (auto simp: readFileSync_def split: option.splits)
  ultimately have "source_time w2 (configPath opts) = T"
    using cfgT by (auto simp: source_time_def statSync_def split: option.splits)
  then have m: "T \<le> maxTime w2 opts cfg'"
    using maxTime_config [of w2 opts cfg'] by simp
  have "nodes w2 ''node_modules'' = nodes w' ''node_modules''" using same nm by simp
  then have "existsSync w2 ''node_modules'' = existsSync w' ''node_modules''"
    by (simp add: existsSync_def)
  then have c2: "cache_file opts w2 = cache_file opts w'" by (rule cache_file_same)
  have "nodes w2 (cache_file opts w') = nodes w' (cache_file opts w')" using same ct by simp
  then have "lastTime w2 (cache_file opts w2) = lastTime w' (cache_file opts w')"
    using c2 by (simp add: lastTime_def statSync_def)
  with last m have "\<not> fresh w2 opts cfg'" by (simp add: fresh_def)
  with Inr r have "generateApp E opts evs' w'
      = build E opts cfg' (cache_file opts w2) (clock w2 div 1000) evs' w2"
    by (simp add: generateApp_entry)
  then show ?thesis
    using build_not_skipped [of E opts cfg' _ _ evs' w2] by (metis prod.collapse)
qed

lemma three_parts:
  "(c \<Longrightarrow> P) \<Longrightarrow> (\<not> c \<Longrightarrow> Q) \<Longrightarrow> (R \<Longrightarrow> N) \<Longrightarrow> (c \<longrightarrow> P) \<and> (\<not> c \<longrightarrow> Q) \<and> (R \<longrightarrow> N)"
  by blast

text \<open>
  Claim C8, as the code has it. The cache path and \<open>node_modules\<close> are not among the
  paths a run writes before the commit, and the cache path is none of the sources. The
  build start time is the clock at the start, cut to whole seconds.

  A run that completes has read and parsed the configuration; the cache marker is a file
  whose modification time is the build start time, and so is the modification time of
  every source that exists.

  A run that ends in any other way leaves the cache marker exactly as it was. It leaves
  every source outside the written paths exactly as it was, too, unless it ends in the
  commit itself: the sources are re-timed first and the cache marker is written after
  them, and where that write throws (the cache path is a directory, or it does not exist
  and its parent directory is missing or is a file) the run rejects with that error when
  every source that exists already carries the build start time. This happens only where
  the cache path could not be written before the run either.

  After a run that has gone wrong (it did not complete, nor return at the gate), the next
  run, whatever the favicon capability then does, does not return at the gate, if the
  configuration file is not among the written paths, no source carries a modification
  time later than the clock, and the cache path can be written or else its modification
  time (0 where it does not exist) is before the build start time.
\<close>

theorem cache_commit_only_on_completion:
  assumes run: "generateApp E opts evs w0 = (out, w')"
    and A1: "\<not> is_output opts (cache_file opts w0)"
    and A2: "\<not> is_output opts ''node_modules''"
    and A3: "\<forall>text cfg. readFileSync w0 (configPath opts) = Inr text \<and> parseConfig E text = Some cfg
               \<longrightarrow> cache_file opts w0 \<notin> set (sources_of opts cfg)"
  shows "(out = Completed \<longrightarrow>
            (\<exists>text cfg c. readFileSync w0 (configPath opts) = Inr text \<and> parseConfig E text = Some cfg
               \<and> nodes w' (cache_file opts w0) = Some (File c (clock w0 div 1000 * 1000))
               \<and> (\<forall>s\<in>set (sources_of opts cfg). \<forall>n. nodes w' s = Some n \<longrightarrow>
                     mtime n = clock w0 div 1000 * 1000)))
    \<and> (out \<noteq> Completed \<longrightarrow>
          nodes w' (cache_file opts w0) = nodes w0 (cache_file opts w0)
          \<and> (\<forall>text cfg. readFileSync w0 (configPath opts) = Inr text \<and> parseConfig E text = Some cfg
                \<longrightarrow> (\<forall>s\<in>set (sources_of opts cfg). \<not> is_output opts s \<longrightarrow> nodes w' s = nodes w0 s)
                    \<or> (\<not> writable w0 (cache_file opts w0)
                        \<and> (out = Rejects (EISDIR (cache_file opts w0))
                            \<or> out = Rejects (ENOTDIR (cache_file opts w0))
                            \<or> out = Rejects (ENOENT (cache_file opts w0)))
                        \<and> (\<forall>s\<in>set (sources_of opts cfg). \<forall>n. nodes w' s = Some n \<longrightarrow>
                              mtime n = clock w0 div 1000 * 1000)
                        \<and> (\<forall>s\<in>set (sources_of opts cfg). \<not> is_output opts s \<longrightarrow>
                              nodes w' s = map_option (set_mtime (clock w0 div 1000 * 1000)) (nodes w0 s)))))
    \<and> (out \<noteq> Completed \<and> out \<noteq> Skipped
          \<and> \<not> is_output opts (configPath opts)
          \<and> (writable w0 (cache_file opts w0)
              \<or> lastTime w0 (cache_file opts w0) < clock w0 div 1000 * 1000)
          \<and> (\<forall>text cfg. readFileSync w0 (configPath opts) = Inr text \<and> parseConfig E text = Some cfg
                \<longrightarrow> (\<forall>s\<in>set (sources_of opts cfg). source_time w0 s \<le> clock w0))
        \<longrightarrow> (\<forall>evs'. fst (generateApp E opts evs' w') \<noteq> Skipped))"
  (is "(_ \<longrightarrow> ?done) \<and> (_ \<longrightarrow> ?cache \<and> ?sources) \<and> (?pre \<longrightarrow> ?next)")
proof -
  let ?C = "cache_file opts w0"
  let ?T = "clock w0 div 1000 * 1000"
  have frame: "?cache \<and> ?sources" if "preserves opts w0 w'"
    using that A1 unfolding preserves_def by blast
  show ?thesis
  proof (cases "entry E opts w0")
    case (Inl r)
    obtain oc w where r: "r = (oc, w)" by (cases r)
    with Inl run have eq: "out = oc" "w' = w" by (simp_all add: generateApp_entry)
    from entry_fails [of E opts w0 oc w] Inl r eq
    have p: "preserves opts w0 w'" and oo: "out \<noteq> Completed" "out \<noteq> Skipped"
      and again: "\<exists>r. entry E opts w' = Inl r"
      by simp_all
    have n: "?next"
    proof
      fix evs'
      from again obtain o2 w2 where e2: "entry E opts w' = Inl (o2, w2)" by fastforce
      from entry_fails [OF e2] have "o2 \<noteq> Skipped" by simp
      with e2 show "fst (generateApp E opts evs' w') \<noteq> Skipped" by (simp add: generateApp_entry)
    qed
    show ?thesis
    proof (rule three_parts)
      assume "out = Completed"
      with oo show ?done by simp
    next
      show "?cache \<and> ?sources" using p by (rule frame)
    next
      show ?next by (rule n)
    qed
  next
    case (Inr r)
    obtain cfg w where r: "r = (cfg, w)" by (cases r)
    with Inr have e: "entry E opts w0 = Inr (cfg, w)" by simp
    from entry_succeeds [OF e] obtain ctext where
      p0: "preserves opts w0 w" and ck: "clock w = clock w0"
      and same: "\<forall>p. p \<noteq> targetFolder opts \<longrightarrow> nodes w p = nodes w0 p"
      and dir: "\<exists>t. nodes w (targetFolder opts) = Some (Dir t)"
      and rd: "readFileSync w (configPath opts) = Inr ctext" and ps: "parseConfig E ctext = Some cfg"
      by auto
    have "configPath opts \<noteq> targetFolder opts"
      using dir rd by (auto simp: readFileSync_def)
    with same rd have rd0: "readFileSync w0 (configPath opts) = Inr ctext"
      by (simp add: readFileSync_def)
    have nm: "''node_modules'' \<noteq> targetFolder opts" using A2 output_paths(1) [of opts] by auto
    have ct: "?C \<noteq> targetFolder opts" using A1 output_paths(1) [of opts] by auto
    from nm same have "existsSync w ''node_modules'' = existsSync w0 ''node_modules''"
      by (simp add: existsSync_def)
    then have C: "cache_file opts w = ?C" by (rule cache_file_same)
    have only: "cfg' = cfg"
      if "readFileSync w0 (configPath opts) = Inr text'" "parseConfig E text' = Some cfg'" for text' cfg'
      using that rd0 ps by simp
    show ?thesis
    proof (cases "fresh w opts cfg")
      case True
      with e run have sk: "out = Skipped" "w' = w" by (auto simp: generateApp_entry)
      with p0 have p: "preserves opts w0 w'" by simp
      show ?thesis
      proof (rule three_parts)
        assume "out = Completed"
        with sk(1) show ?done by simp
      next
        show "?cache \<and> ?sources" using p by (rule frame)
      next
        assume ?pre
        with sk(1) show ?next by simp
      qed
    next
      case False
      with e run C ck
      have b: "build E opts cfg ?C (clock w0 div 1000) evs w = (out, w')"
        by (simp add: generateApp_entry)
      from build_cases [OF b]
      consider (finished) w3 where "out = Completed"
          "commit_cache ?C (sources_of opts cfg) (clock w0 div 1000) w3 = Inr ((), w')"
        | (early) "out \<noteq> Completed" "out \<noteq> Skipped" "preserves opts w w'"
        | (late) w3 where "out = Rejects (EISDIR ?C) \<or> out = Rejects (ENOTDIR ?C) \<or> out = Rejects (ENOENT ?C)"
          "preserves opts w w3" "\<not> writable w3 ?C"
          "w' = touch_sources (sources_of opts cfg) (clock w0 div 1000) (emit Stdout ''caching...'' w3)"
        by blast
      then show ?thesis
      proof cases
        case finished
        from commit_cache_success [OF finished(2)] rd0 ps have d: "?done" by blast
        show ?thesis
        proof (rule three_parts)
          show ?done by (rule d)
        next
          assume "out \<noteq> Completed"
          with finished(1) show "?cache \<and> ?sources" by simp
        next
          assume ?pre
          with finished(1) show ?next by simp
        qed
      next
        case early
        from p0 early(3) have p: "preserves opts w0 w'" by (rule preserves_trans)
        have n: "?next" if "?pre"
        proof
          fix evs'
          from that have cfgp: "\<not> is_output opts (configPath opts)"
            and past: "\<forall>s\<in>set (sources_of opts cfg). source_time w0 s \<le> clock w0"
            using rd0 ps by blast+
          from A1 C have A1': "\<not> is_output opts (cache_file opts w)" by simp
          from early_not_skipped [OF e False early(3) cfgp A1' A2 past]
          show "fst (generateApp E opts evs' w') \<noteq> Skipped" .
        qed
        show ?thesis
        proof (rule three_parts)
          assume "out = Completed"
          with early(1) show ?done by simp
        next
          show "?cache \<and> ?sources" using p by (rule frame)
        next
          assume ?pre
          then show ?next by (rule n)
        qed
      next
        case late
        from p0 late(2) have q3: "preserves opts w0 w3" by (rule preserves_trans)
        have nw0: "\<not> writable w0 ?C"
          using writable_preserved [OF q3 A1] late(3) by blast
        have notsrc: "?C \<notin> set (sources_of opts cfg)" using A3 rd0 ps by blast
        have eff: "nodes w' p = (if p \<in> set (sources_of opts cfg)
                                 then map_option (set_mtime ?T) (nodes w3 p) else nodes w3 p)" for p
          using touch_sources_effect [of "sources_of opts cfg" "clock w0 div 1000"
              "emit Stdout ''caching...'' w3" p] late(4)
          by simp
        have keep: "nodes w3 p = nodes w0 p" if "\<not> is_output opts p" for p
          using q3 that by (simp add: preserves_def)
        have cache: "?cache" using eff [of ?C] notsrc keep [OF A1] by simp
        have timed: "\<forall>s\<in>set (sources_of opts cfg). \<forall>n. nodes w' s = Some n \<longrightarrow> mtime n = ?T"
          using eff by auto
        have kept: "\<forall>s\<in>set (sources_of opts cfg). \<not> is_output opts s \<longrightarrow>
            nodes w' s = map_option (set_mtime ?T) (nodes w0 s)"
          using eff keep by simp
        have nc: "out \<noteq> Completed" using late(1) by auto
        have srcs: "?sources"
        proof (intro allI impI)
          fix text' cfg'
          assume "readFileSync w0 (configPath opts) = Inr text' \<and> parseConfig E text' = Some cfg'"
          then have "cfg' = cfg" using only by blast
          with nw0 late(1) timed kept
          show "(\<forall>s\<in>set (sources_of opts cfg'). \<not> is_output opts s \<longrightarrow> nodes w' s = nodes w0 s)
                    \<or> (\<not> writable w0 ?C
                        \<and> (out = Rejects (EISDIR ?C) \<or> out = Rejects (ENOTDIR ?C) \<or> out = Rejects (ENOENT ?C))
                        \<and> (\<forall>s\<in>set (sources_of opts cfg'). \<forall>n. nodes w' s = Some n \<longrightarrow> mtime n = ?T)
                        \<and> (\<forall>s\<in>set (sources_of opts cfg'). \<not> is_output opts s \<longrightarrow>
                              nodes w' s = map_option (set_mtime ?T) (nodes w0 s)))"
            by simp
        qed
        have n: "?next" if "?pre"
        proof
          fix evs'
          from that nw0 have lt: "lastTime w0 ?C < ?T" by blast
          have cfgT: "\<forall>n. nodes w' (configPath opts) = Some n \<longrightarrow> mtime n = ?T"
            using timed by (simp add: sources_of_def)
          have "nodes w3 ''node_modules'' = nodes w0 ''node_modules''" using keep [OF A2] .
          then have "existsSync w' ''node_modules'' = existsSync w0 ''node_modules''"
            using eff [of "''node_modules''"] by (auto simp: existsSync_def)
          then have cf: "cache_file opts w' = ?C" by (rule cache_file_same)
          have last: "lastTime w' (cache_file opts w') < ?T"
            using cf cache lt by (simp add: lastTime_def statSync_def)
          have ct': "cache_file opts w' \<noteq> targetFolder opts" using cf ct by simp
          from retimed_not_skipped [OF cfgT last nm ct']
          show "fst (generateApp E opts evs' w') \<noteq> Skipped" .
        qed
        show ?thesis
        proof (rule three_parts)
          assume "out = Completed"
          with nc show ?done by simp
        next
          show "?cache \<and> ?sources" using cache srcs by (rule conjI)
        next
          assume ?pre
          then show ?next by (rule n)
        qed
      qed
    qed
  qed
qed

lemma demo_paths:
  "path_join ''public'' ''robots.txt'' = ''public/robots.txt''"
  "path_join ''public'' ''index.html'' = ''public/index.html''"
  by (simp_all add: path_join_def normalize_def)

lemma demo_outputs:
  "is_output (demo_options\<lparr>cachePath := cp\<rparr>) p \<longleftrightarrow>
     p = ''public'' \<or> p = ''public/robots.txt'' \<or> p = ''public/pwa'' \<or> prefix ''public/pwa/'' p
     \<or> p = ''public/pwa/manifest.json'' \<or> p = ''public/pwa/yandex-browser-manifest.json''
     \<or> p = ''public/pwa/manifest.webapp'' \<or> p = ''public/pwa/browserconfig.xml''
     \<or> p = ''public/index.html''"
proof -
  have t: "targetFolder (demo_options\<lparr>cachePath := cp\<rparr>) = ''public''"
    "dest_of (demo_options\<lparr>cachePath := cp\<rparr>) = ''public/index.html''"
    by (simp_all add: dest_of_def truthy_def demo_options_def demo_paths)
  show ?thesis
    unfolding is_output_def Let_def t merge_paths(3) demo_paths rewritten_files_def
    by (simp add: rewritten_paths)
qed

lemma demo_options_cache: "demo_options\<lparr>cachePath := None\<rparr> = demo_options"
  by (simp add: demo_options_def)

lemma build_demo_cache:
  "cache_file demo_options build_demo = ''.prepare-for-web-cache''"
  "cache_file marker_options build_demo = ''cache/marker''"
  by (simp_all add: cache_file_def existsSync_def truthy_def js_str_def demo_options_def
      marker_options_def build_demo_def)

lemma build_demo_config:
  assumes "readFileSync build_demo (configPath (demo_options\<lparr>cachePath := cp\<rparr>)) = Inr ctext
       \<and> parseConfig demo_env ctext = Some cfg"
  shows "sources_of (demo_options\<lparr>cachePath := cp\<rparr>) cfg
       = [''application.json'', ''index.template.html'', ''icon.png'']"
proof -
  from assms have "ctext = ''{}''"
    by (simp add: readFileSync_def build_demo_def demo_options_def)
  with assms have "cfg = demo_config" by (simp add: demo_env_def)
  then show ?thesis
    by (simp add: sources_of_def other_sources_def truthy_def js_str_def demo_options_def demo_config_def)
qed

lemma build_demo_sources:
  "\<forall>ctext cfg. readFileSync build_demo (configPath (demo_options\<lparr>cachePath := cp\<rparr>)) = Inr ctext
       \<and> parseConfig demo_env ctext = Some cfg
     \<longrightarrow> ''.prepare-for-web-cache'' \<notin> set (sources_of (demo_options\<lparr>cachePath := cp\<rparr>) cfg)
         \<and> ''cache/marker'' \<notin> set (sources_of (demo_options\<lparr>cachePath := cp\<rparr>) cfg)
         \<and> (\<forall>s\<in>set (sources_of (demo_options\<lparr>cachePath := cp\<rparr>) cfg).
               source_time build_demo s \<le> clock build_demo)"
proof (intro allI impI)
  fix ctext cfg
  assume "readFileSync build_demo (configPath (demo_options\<lparr>cachePath := cp\<rparr>)) = Inr ctext
       \<and> parseConfig demo_env ctext = Some cfg"
  then have s: "sources_of (demo_options\<lparr>cachePath := cp\<rparr>) cfg
       = [''application.json'', ''index.template.html'', ''icon.png'']"
    by (rule build_demo_config)
  show "''.prepare-for-web-cache'' \<notin> set (sources_of (demo_options\<lparr>cachePath := cp\<rparr>) cfg)
         \<and> ''cache/marker'' \<notin> set (sources_of (demo_options\<lparr>cachePath := cp\<rparr>) cfg)
         \<and> (\<forall>s\<in>set (sources_of (demo_options\<lparr>cachePath := cp\<rparr>) cfg).
               source_time build_demo s \<le> clock build_demo)"
    unfolding s by (simp add: source_time_def statSync_def build_demo_def)
qed

lemma build_demo_completes:
  "fst (generateApp demo_env demo_options [FirstDone (Produced late_response)] build_demo) = Completed"
  by (simp add: pipeline_eval demo_defs build_demo_def)

lemma build_demo_rejects:
  "fst (generateApp demo_env demo_options [FirstDone (Failed ''boom'')] build_demo)
     = Rejects (FaviconError ''boom'')"
  by (simp add: pipeline_eval demo_defs build_demo_def)

lemma marker_demo_rejects:
  "fst (generateApp demo_env marker_options [FirstDone (Produced late_response)] build_demo)
     = Rejects (ENOENT ''cache/marker'')"
  by (simp add: pipeline_eval demo_defs build_demo_def marker_options_def)

theorem cache_commit_only_on_completion_witness:
  "fst (generateApp demo_env demo_options [FirstDone (Produced late_response)] build_demo) = Completed
   \<and> (\<exists>c. nodes (snd (generateApp demo_env demo_options [FirstDone (Produced late_response)] build_demo))
              ''.prepare-for-web-cache'' = Some (File c 5000))
   \<and> fst (generateApp demo_env demo_options [FirstDone (Failed ''boom'')] build_demo)
        = Rejects (FaviconError ''boom'')
   \<and> nodes (snd (generateApp demo_env demo_options [FirstDone (Failed ''boom'')] build_demo))
        ''.prepare-for-web-cache'' = None
   \<and> nodes (snd (generateApp demo_env demo_options [FirstDone (Failed ''boom'')] build_demo))
        ''icon.png'' = Some (File ''PNG'' 2000)
   \<and> fst (generateApp demo_env demo_options []
            (snd (generateApp demo_env demo_options [FirstDone (Failed ''boom'')] build_demo)))
        \<noteq> Skipped
   \<and> fst (generateApp demo_env marker_options [FirstDone (Produced late_response)] build_demo)
        = Rejects (ENOENT ''cache/marker'')
   \<and> nodes (snd (generateApp demo_env marker_options [FirstDone (Produced late_response)] build_demo))
        ''cache/marker'' = None
   \<and> fst (generateApp demo_env marker_options []
            (snd (generateApp demo_env marker_options [FirstDone (Produced late_response)] build_demo)))
        \<noteq> Skipped"
proof -
  let ?a = "generateApp demo_env demo_options [FirstDone (Produced late_response)] build_demo"
  let ?b = "generateApp demo_env demo_options [FirstDone (Failed ''boom'')] build_demo"
  let ?c = "generateApp demo_env marker_options [FirstDone (Produced late_response)] build_demo"
  note out = demo_outputs [of None, unfolded demo_options_cache]
  note srcs = build_demo_sources [of None, unfolded demo_options_cache]
  note cfgd = build_demo_config [of None, unfolded demo_options_cache]
  note outm = demo_outputs [of "Some ''cache/marker''", folded marker_options_def]
  note srcsm = build_demo_sources [of "Some ''cache/marker''", folded marker_options_def]
  have A1: "\<not> is_output demo_options (cache_file demo_options build_demo)"
    and A2: "\<not> is_output demo_options ''node_modules''"
    by (simp_all add: build_demo_cache out)
  have A3: "\<forall>ctext cfg. readFileSync build_demo (configPath demo_options) = Inr ctext
                \<and> parseConfig demo_env ctext = Some cfg
              \<longrightarrow> cache_file demo_options build_demo \<notin> set (sources_of demo_options cfg)"
    using srcs unfolding build_demo_cache by blast
  have M1: "\<not> is_output marker_options (cache_file marker_options build_demo)"
    and M2: "\<not> is_output marker_options ''node_modules''"
    by (simp_all add: build_demo_cache outm)
  have M3: "\<forall>ctext cfg. readFileSync build_demo (configPath marker_options) = Inr ctext
                \<and> parseConfig demo_env ctext = Some cfg
              \<longrightarrow> cache_file marker_options build_demo \<notin> set (sources_of marker_options cfg)"
    using srcsm unfolding build_demo_cache by blast
  have ra: "?a = (fst ?a, snd ?a)" and rb: "?b = (fst ?b, snd ?b)" and rc: "?c = (fst ?c, snd ?c)"
    by simp_all
  note Ta = cache_commit_only_on_completion [OF ra A1 A2 A3]
  note Tb = cache_commit_only_on_completion [OF rb A1 A2 A3]
  note Tc = cache_commit_only_on_completion [OF rc M1 M2 M3]
  have ck: "clock build_demo div 1000 * 1000 = 5000" by (simp add: build_demo_def)
  from Ta [THEN conjunct1, rule_format, OF build_demo_completes] obtain c where
    "nodes (snd ?a) (cache_file demo_options build_demo) = Some (File c (clock build_demo div 1000 * 1000))"
    by (elim exE conjE)
  then have a: "\<exists>c. nodes (snd ?a) ''.prepare-for-web-cache'' = Some (File c 5000)"
    unfolding build_demo_cache ck by (rule exI)
  have nb: "fst ?b \<noteq> Completed" "fst ?b \<noteq> Skipped" by (simp_all add: build_demo_rejects)
  note Tb2 = Tb [THEN conjunct2, THEN conjunct1, rule_format, OF nb(1)]
  have "nodes (snd ?b) ''.prepare-for-web-cache'' = nodes build_demo ''.prepare-for-web-cache''"
    using Tb2 [THEN conjunct1] unfolding build_demo_cache .
  moreover have "nodes build_demo ''.prepare-for-web-cache'' = None" by (simp add: build_demo_def)
  ultimately have b1: "nodes (snd ?b) ''.prepare-for-web-cache'' = None" by (rule trans)
  have rdb: "readFileSync build_demo (configPath demo_options) = Inr ''{}''
      \<and> parseConfig demo_env ''{}'' = Some demo_config"
    by (simp add: readFileSync_def build_demo_def demo_options_def demo_env_def)
  have sd: "sources_of demo_options demo_config = [''application.json'', ''index.template.html'', ''icon.png'']"
    using rdb by (rule cfgd)
  from Tb2 [THEN conjunct2, rule_format, OF rdb]
  have "(\<forall>s\<in>set (sources_of demo_options demo_config). \<not> is_output demo_options s \<longrightarrow>
            nodes (snd ?b) s = nodes build_demo s)"
    by (simp add: build_demo_rejects)
  then have "nodes (snd ?b) ''icon.png'' = nodes build_demo ''icon.png''"
    unfolding sd by (simp add: out)
  then have b2: "nodes (snd ?b) ''icon.png'' = Some (File ''PNG'' 2000)"
    by (simp add: build_demo_def)
  have wb: "writable build_demo (cache_file demo_options build_demo)"
    unfolding build_demo_cache
    by (simp add: writable_def is_dir_def parent_dir_def build_demo_def)
  have pastb: "\<forall>ctext cfg. readFileSync build_demo (configPath demo_options) = Inr ctext
                \<and> parseConfig demo_env ctext = Some cfg
              \<longrightarrow> (\<forall>s\<in>set (sources_of demo_options cfg). source_time build_demo s \<le> clock build_demo)"
    using srcs by blast
  have cfgo: "\<not> is_output demo_options (configPath demo_options)"
    unfolding out by (simp add: demo_options_def)
  from Tb [THEN conjunct2, THEN conjunct2, rule_format, OF conjI [OF nb(1) conjI [OF nb(2) conjI [OF cfgo conjI [OF disjI1 [OF wb] pastb]]]]]
  have b3: "fst (generateApp demo_env demo_options [] (snd ?b)) \<noteq> Skipped" .
  have nc: "fst ?c \<noteq> Completed" "fst ?c \<noteq> Skipped" by (simp_all add: marker_demo_rejects)
  note Tc2 = Tc [THEN conjunct2, THEN conjunct1, rule_format, OF nc(1)]
  have "nodes (snd ?c) ''cache/marker'' = nodes build_demo ''cache/marker''"
    using Tc2 [THEN conjunct1] unfolding build_demo_cache .
  moreover have "nodes build_demo ''cache/marker'' = None" by (simp add: build_demo_def)
  ultimately have c1: "nodes (snd ?c) ''cache/marker'' = None" by (rule trans)
  have lc: "lastTime build_demo (cache_file marker_options build_demo) < clock build_demo div 1000 * 1000"
    unfolding build_demo_cache by (simp add: lastTime_def statSync_def build_demo_def)
  have pastc: "\<forall>ctext cfg. readFileSync build_demo (configPath marker_options) = Inr ctext
                \<and> parseConfig demo_env ctext = Some cfg
              \<longrightarrow> (\<forall>s\<in>set (sources_of marker_options cfg). source_time build_demo s \<le> clock build_demo)"
    using srcsm by blast
  have cfgm: "\<not> is_output marker_options (configPath marker_options)"
    unfolding outm by (simp add: marker_options_def demo_options_def)
  from Tc [THEN conjunct2, THEN conjunct2, rule_format, OF conjI [OF nc(1) conjI [OF nc(2) conjI [OF cfgm conjI [OF disjI2 [OF lc] pastc]]]]]
  have c3: "fst (generateApp demo_env marker_options [] (snd ?c)) \<noteq> Skipped" .
  show ?thesis
    by (intro conjI) (rule build_demo_completes a build_demo_rejects b1 b2 b3 marker_demo_rejects c1 c3)+
qed

text \<open>
  The claim C8 as the specification words it fails where the write of the cache marker
  throws: by then the sources have been re-timed. With the cache path \<open>cache/marker\<close>
  and no directory \<open>cache\<close>, the run gets through the document, sets the three sources
  from their times 1000, 1000 and 2000 to the build start time 5000, and rejects. With
  a cache path that names a directory, modified at 5200, and an icon modified at 5300,
  the build is stale; the run sets the sources to 5000 and rejects on the directory,
  which is as it was; and the next run, not forced either, finds the directory newer
  than every source and returns at the gate.
\<close>

theorem retimed_before_cache_write_counterexample:
  "fst (generateApp demo_env marker_options [FirstDone (Produced late_response)] build_demo)
     = Rejects (ENOENT ''cache/marker'')
   \<and> map (statSync build_demo) (sources_of marker_options demo_config) = [Inr 1000, Inr 1000, Inr 2000]
   \<and> map (statSync (snd (generateApp demo_env marker_options [FirstDone (Produced late_response)] build_demo)))
        (sources_of marker_options demo_config) = [Inr 5000, Inr 5000, Inr 5000]
   \<and> \<not> force cachedir_options
   \<and> fst (generateApp demo_env cachedir_options [FirstDone (Produced late_response)] cachedir_demo)
     = Rejects (EISDIR ''cachedir'')
   \<and> map (statSync cachedir_demo) (sources_of cachedir_options demo_config) = [Inr 1000, Inr 1000, Inr 5300]
   \<and> map (statSync (snd (generateApp demo_env cachedir_options [FirstDone (Produced late_response)]
                            cachedir_demo)))
        (sources_of cachedir_options demo_config) = [Inr 5000, Inr 5000, Inr 5000]
   \<and> nodes (snd (generateApp demo_env cachedir_options [FirstDone (Produced late_response)] cachedir_demo))
        ''cachedir'' = nodes cachedir_demo ''cachedir''
   \<and> fst (generateApp demo_env cachedir_options []
            (snd (generateApp demo_env cachedir_options [FirstDone (Produced late_response)] cachedir_demo)))
     = Skipped"
proof -
  have a: "fst (generateApp demo_env cachedir_options [FirstDone (Produced late_response)] cachedir_demo)
     = Rejects (EISDIR ''cachedir'')"
    by (simp add: pipeline_eval demo_defs cachedir_demo_def cachedir_options_def)
  have b: "map (statSync (snd (generateApp demo_env marker_options [FirstDone (Produced late_response)] build_demo)))
        (sources_of marker_options demo_config) = [Inr 5000, Inr 5000, Inr 5000]"
    by (simp add: pipeline_eval demo_defs build_demo_def marker_options_def)
  have c: "map (statSync (snd (generateApp demo_env cachedir_options [FirstDone (Produced late_response)]
                            cachedir_demo)))
        (sources_of cachedir_options demo_config) = [Inr 5000, Inr 5000, Inr 5000]"
    by (simp add: pipeline_eval demo_defs cachedir_demo_def cachedir_options_def)
  have d: "nodes (snd (generateApp demo_env cachedir_options [FirstDone (Produced late_response)] cachedir_demo))
        ''cachedir'' = nodes cachedir_demo ''cachedir''"
    by (simp add: pipeline_eval demo_defs cachedir_demo_def cachedir_options_def)
  have e: "fst (generateApp demo_env cachedir_options []
            (snd (generateApp demo_env cachedir_options [FirstDone (Produced late_response)] cachedir_demo)))
     = Skipped"
    by (simp add: pipeline_eval demo_defs cachedir_demo_def cachedir_options_def)
  have f: "map (statSync build_demo) (sources_of marker_options demo_config) = [Inr 1000, Inr 1000, Inr 2000]"
    "map (statSync cachedir_demo) (sources_of cachedir_options demo_config) = [Inr 1000, Inr 1000, Inr 5300]"
    "\<not> force cachedir_options"
    by (simp_all add: sources_of_def other_sources_def statSync_def truthy_def js_str_def
        demo_options_def demo_config_def marker_options_def cachedir_options_def
        build_demo_def cachedir_demo_def)
  show ?thesis
    by (intro conjI) (rule marker_demo_rejects a b c d e f)+
qed

section \<open>The manifest as the pipeline leaves it\<close>

lemma html_only_dest:
  assumes "generateBasicIndexHTML E tpl (targetFolder opts) title meta fo (targetFile opts) b w = Inr (x, w')"
    and "p \<noteq> dest_of opts"
  shows "nodes w' p = nodes w p"
proof -
  have "\<exists>c w2. writeFileSync (dest_of opts) c (emit Stdout ''generating html...'' w) = Inr w2
            \<and> w' = emit Stdout '' done\<newline>'' w2"
    using assms(1)
    unfolding generateBasicIndexHTML_def Let_def dest_of_def [symmetric]
    by (auto split: sum.splits option.splits)
  then obtain c w2 where "writeFileSync (dest_of opts) c (emit Stdout ''generating html...'' w) = Inr w2"
    and "w' = emit Stdout '' done\<newline>'' w2"
    by blast
  with assms(2) show ?thesis
    by (auto dest: writeFileSync_written)
qed

lemma commit_keeps_content:
  assumes "commit_cache C srcs now w = Inr (x, w')" and "p \<noteq> C"
    and "nodes w p = Some (File c t)"
  shows "\<exists>t'. nodes w' p = Some (File c t')"
proof -
  let ?w1 = "touch_sources srcs now (emit Stdout ''caching...'' w)"
  from assms(1) obtain w2 w3 where
    wr: "writeFileSync C (toString (clock ?w1)) ?w1 = Inr w2"
    and ut: "utimesSync C now w2 = Inr w3"
    and w': "w' = emit Stdout ''done\<newline>'' w3"
    by (auto simp: commit_cache_def Let_def split: sum.splits)
  have "\<exists>t'. nodes ?w1 p = Some (File c t')"
    using touch_sources_effect [of srcs now "emit Stdout ''caching...'' w" p] assms(3) by auto
  moreover from wr assms(2) have "nodes w2 p = nodes ?w1 p"
    by (auto dest: writeFileSync_written)
  moreover from utimesSync_effect [OF ut] assms(2) have "nodes w3 p = nodes w2 p" by simp
  ultimately show ?thesis using w' by simp
qed

text \<open>
  Claim C9. The pipeline has got past the favicon call and completes. \<open>manifest.json\<close>
  is among the files it rewrites and is not markup, so every quoted root path in it is
  rewritten, not only the icons' \<open>src\<close>. Let the manifest hold the text \<open>c\<close> when the
  rewriting starts (as the favicon capability wrote it, or as the merge of the maskable
  icons wrote it back). Then the manifest the run leaves on disk holds the rewritten
  text: where \<open>c\<close> has the member \<open>scope\<close> or \<open>start_url\<close> with the value \<open>/\<close> (after a
  colon, with or without a space), the persisted text has that member with the value
  \<open>../\<close>, and no such member with the value \<open>/\<close> is left anywhere in it. (The four
  rewritten names join to distinct paths, none a directory; the manifest is neither the
  document nor the cache marker.)
\<close>

theorem persisted_manifest_scope_start_url:
  assumes "after_favicons E opts cfg u C now fo w = (Completed, w')"
    and "(case maskable_icons cfg of
            None \<Rightarrow> Inr ((), w)
          | Some ms \<Rightarrow> patch_manifest E (targetFolder opts) (path_join (targetFolder opts) ''pwa'') ms w)
         = Inr ((), w1)"
    and "nodes w1 (path_join (path_join (targetFolder opts) ''pwa'') ''manifest.json'') = Some (File c t)"
    and "\<forall>f\<in>set rewritten_files. \<forall>t.
           nodes w1 (path_join (path_join (targetFolder opts) ''pwa'') f) \<noteq> Some (Dir t)"
    and "distinct (map (path_join (path_join (targetFolder opts) ''pwa'')) rewritten_files)"
    and "path_join (path_join (targetFolder opts) ''pwa'') ''manifest.json'' \<noteq> dest_of opts"
    and "path_join (path_join (targetFolder opts) ''pwa'') ''manifest.json'' \<noteq> C"
  shows "\<exists>c' t'. nodes w' (path_join (path_join (targetFolder opts) ''pwa'') ''manifest.json'')
                   = Some (File c' t')
      \<and> (\<forall>k\<in>{''scope'', ''start_url''}. \<forall>sep\<in>{'':'', '': ''}.
            (\<forall>pre post. c = pre @ json_member k sep ''/'' @ post \<and> \<not> prefix ''/'' post \<longrightarrow>
               c' = replace_all findDirect replDirect pre @ json_member k sep ''../''
                      @ replace_all findDirect replDirect post)
            \<and> \<not> sublist (json_member k sep ''/'') c')"
proof -
  let ?ff = "path_join (targetFolder opts) ''pwa''"
  let ?mp = "path_join ?ff ''manifest.json''"
  from rewritten_manifest_members [OF assms(3,4,5)] obtain w2 c' where
    r: "replaceRootPaths ?ff rewritten_files w1 = Inr ((), w2)"
    and n2: "nodes w2 ?mp = Some (File c' (clock w1))"
    and m: "\<forall>k\<in>{''scope'', ''start_url''}. \<forall>sep\<in>{'':'', '': ''}.
            (\<forall>pre post. c = pre @ json_member k sep ''/'' @ post \<and> \<not> prefix ''/'' post \<longrightarrow>
               c' = replace_all findDirect replDirect pre @ json_member k sep ''../''
                      @ replace_all findDirect replDirect post)
            \<and> \<not> sublist (json_member k sep ''/'') c'"
    by (elim exE conjE) (rule that)
  let ?title = "js_str (appName cfg) @ '' - '' @ js_str (appShortDescription cfg)"
  let ?preview = "js_str u @ ''/'' @ (if truthy (preview cfg) then js_str (preview cfg) else ''preview.png'')"
  let ?h = "generateBasicIndexHTML E (templateFilePath opts) (targetFolder opts) ?title
              (meta_of ?title cfg u ?preview) fo (targetFile opts) (base cfg) w2"
  from assms(1,2) r have
    "(case ?h of
        Inl (e, w') \<Rightarrow> (Rejects e, w')
      | Inr (x, w3) \<Rightarrow>
          (case commit_cache C (sources_of opts cfg) now w3 of
             Inl (e, w') \<Rightarrow> (Rejects e, w')
           | Inr (x, w4) \<Rightarrow> (Completed, w4))) = (Completed, w')"
    by (simp add: after_favicons_def Let_def)
  then obtain w3 where h: "?h = Inr ((), w3)"
    and cc: "commit_cache C (sources_of opts cfg) now w3 = Inr ((), w')"
    by (auto split: sum.splits prod.splits)
  from html_only_dest [OF h assms(6)] n2 have "nodes w3 ?mp = Some (File c' (clock w1))" by simp
  from commit_keeps_content [OF cc assms(7) this] obtain t' where
    "nodes w' ?mp = Some (File c' t')" by blast
  with m show ?thesis by blast
qed
lemma scope_demo_split:
  \<open>''{"scope": "/", "start_url": "/", "icons": [{"src": "/pwa/a.png"}]}''
     = ''{'' @ json_member ''scope'' '': '' ''/'' @ '', "start_url": "/", "icons": [{"src": "/pwa/a.png"}]}''\<close>
  by (simp add: json_member_def)

lemma scope_demo_completes:
  "fst (after_favicons demo_env demo_options demo_config (Some ''https://example.com'')
         ''.prepare-for-web-cache'' 5 [''<link>''] scope_demo) = Completed"
  by (simp add: pipeline_eval demo_defs scope_demo_def)

theorem persisted_manifest_scope_start_url_witness:
  \<open>\<exists>t'. nodes (snd (after_favicons demo_env demo_options demo_config (Some ''https://example.com'')
                       ''.prepare-for-web-cache'' 5 [''<link>''] scope_demo))
             ''public/pwa/manifest.json''
         = Some (File ''{"scope": "../", "start_url": "../", "icons": [{"src": "../pwa/a.png"}]}'' t')\<close>
proof -
  let ?r = "after_favicons demo_env demo_options demo_config (Some ''https://example.com'')
              ''.prepare-for-web-cache'' 5 [''<link>''] scope_demo"
  let ?ff = "path_join (targetFolder demo_options) ''pwa''"
  have ff: "?ff = ''public/pwa''" by (simp add: demo_options_def merge_paths)
  have h1: "?r = (Completed, snd ?r)"
    using scope_demo_completes by (metis prod.collapse)
  have h2: "(case maskable_icons demo_config of
               None \<Rightarrow> Inr ((), scope_demo)
             | Some ms \<Rightarrow> patch_manifest demo_env (targetFolder demo_options) ?ff ms scope_demo)
            = Inr ((), scope_demo)"
    by (simp add: demo_config_def)
  have h3: \<open>nodes scope_demo (path_join ?ff ''manifest.json'')
      = Some (File ''{"scope": "/", "start_url": "/", "icons": [{"src": "/pwa/a.png"}]}'' 5400)\<close>
    unfolding ff rewritten_paths by (simp add: scope_demo_def)
  have h4: "\<forall>f\<in>set rewritten_files. \<forall>t. nodes scope_demo (path_join ?ff f) \<noteq> Some (Dir t)"
    unfolding ff by (simp add: rewritten_files_def rewritten_paths scope_demo_def)
  have h5: "distinct (map (path_join ?ff) rewritten_files)"
    unfolding ff by (simp add: rewritten_files_def rewritten_paths)
  have h6: "path_join ?ff ''manifest.json'' \<noteq> dest_of demo_options"
    unfolding ff rewritten_paths by (simp add: dest_of_def truthy_def demo_options_def demo_paths)
  have h7: "path_join ?ff ''manifest.json'' \<noteq> ''.prepare-for-web-cache''"
    unfolding ff rewritten_paths by simp
  from persisted_manifest_scope_start_url [OF h1 h2 h3 h4 h5 h6 h7] obtain c' t' where
    n: "nodes (snd ?r) (path_join ?ff ''manifest.json'') = Some (File c' t')"
    and m: \<open>\<forall>k\<in>{''scope'', ''start_url''}. \<forall>sep\<in>{'':'', '': ''}.
            (\<forall>pre post. ''{"scope": "/", "start_url": "/", "icons": [{"src": "/pwa/a.png"}]}''
                 = pre @ json_member k sep ''/'' @ post \<and> \<not> prefix ''/'' post \<longrightarrow>
               c' = replace_all findDirect replDirect pre @ json_member k sep ''../''
                      @ replace_all findDirect replDirect post)
            \<and> \<not> sublist (json_member k sep ''/'') c'\<close>
    by (elim exE conjE) (rule that)
  have k: "''scope'' \<in> {''scope'', ''start_url''}" and s: "'': '' \<in> {'':'', '': ''}"
    by simp_all
  have np: \<open>\<not> prefix ''/'' '', "start_url": "/", "icons": [{"src": "/pwa/a.png"}]}''\<close>
    by simp
  have \<open>c' = replace_all findDirect replDirect ''{'' @ json_member ''scope'' '': '' ''../''
           @ replace_all findDirect replDirect '', "start_url": "/", "icons": [{"src": "/pwa/a.png"}]}''\<close>
    using m [rule_format, OF k s, THEN conjunct1, rule_format, OF conjI, OF scope_demo_split np] .
  moreover have \<open>replace_all findDirect replDirect ''{'' = ''{''\<close>
    by (simp add: findDirect_def)
  moreover have \<open>replace_all findDirect replDirect '', "start_url": "/", "icons": [{"src": "/pwa/a.png"}]}''
      = '', "start_url": "../", "icons": [{"src": "../pwa/a.png"}]}''\<close>
    by (simp add: findDirect_def replDirect_def)
  ultimately have \<open>c' = ''{"scope": "../", "start_url": "../", "icons": [{"src": "../pwa/a.png"}]}''\<close>
    by (simp add: json_member_def)
  with n show ?thesis unfolding ff rewritten_paths by blast
qed

end
